theory Spec2Isabelle
  imports Complex_Main "HOL-Library.Word"
begin

unbundle bit_operations_syntax

text \<open>
  A model of the encryption benchmark: the client (\<^verbatim>\<open>client.js\<close>: \<^verbatim>\<open>makeRequest\<close>,
  the cipher functions and \<^verbatim>\<open>benchmark\<close>) and the server it talks to (the express
  application that keeps the strings in an array). JavaScript strings are modelled as
  lists of characters, buffers as lists of 8-bit words, exceptions as the left summand of
  a sum type, and the mutable state (the server's array, the requests sent, the uses of
  the random generator and of the clock) as a record that every effectful function
  takes and returns. The first part translates the code; the second part proves its
  properties.
\<close>

section \<open>Errors and JavaScript numbers\<close>

text \<open>
  The JavaScript sources never declare error classes of their own: every failure is an
  exception thrown by the runtime or by a library, or the one \<^verbatim>\<open>new Error\<close> of
  \<^verbatim>\<open>benchmark\<close>. Each constructor below but the last stands for one place that
  throws. The last, \<open>EmptyInput\<close>, is the failure that the specification names for
  statistics of no durations; it is here so that this can be stated, and nothing in
  the model of the code produces it.
\<close>

datatype error =
    TypeError              \<comment> \<open>a property read on \<^verbatim>\<open>undefined\<close>, e.g. \<^verbatim>\<open>median.toFixed\<close>\<close>
  | SyntaxError            \<comment> \<open>\<^verbatim>\<open>JSON.parse\<close> on text that is not JSON\<close>
  | NetworkError           \<comment> \<open>the \<^verbatim>\<open>'error'\<close> event of \<^verbatim>\<open>http.request\<close>\<close>
  | InvalidKeyLength       \<comment> \<open>\<^verbatim>\<open>createCipheriv\<close>: Invalid key length\<close>
  | InvalidIV              \<comment> \<open>\<^verbatim>\<open>createCipheriv\<close>: Invalid initialization vector\<close>
  | InvalidAuthTagLength   \<comment> \<open>\<^verbatim>\<open>setAuthTag\<close>: Invalid authentication tag length\<close>
  | AuthenticationFailure  \<comment> \<open>\<^verbatim>\<open>decipher.final\<close>: unable to authenticate data\<close>
  | DataTooLarge           \<comment> \<open>\<^verbatim>\<open>publicEncrypt\<close>: data too large for key size\<close>
  | DecryptionFailure      \<comment> \<open>\<^verbatim>\<open>privateDecrypt\<close>: OAEP decoding error\<close>
  | DataMismatch           \<comment> \<open>\<^verbatim>\<open>Error('Decryption failed - data mismatch!')\<close>\<close>
  | EmptyInput             \<comment> \<open>named by the specification only; thrown nowhere\<close>

text \<open>
  Durations are JavaScript numbers. A measured duration is finite; the statistics of an
  empty array are not: \<^verbatim>\<open>0 / 0\<close> is NaN, \<^verbatim>\<open>Math.min()\<close> is Infinity and
  \<^verbatim>\<open>Math.max()\<close> is -Infinity. Finite values are modelled as reals, so the rounding
  of IEEE doubles is not part of the model.
\<close>

datatype number = Fin real | NaN | Infinity | NegInfinity

section \<open>Statistics of a benchmark run (client.js, lines 199-212)\<close>

record summary =
  avg :: number
  median :: real
  min_time :: number
  max_time :: number

definition reduce_sum :: "real list \<Rightarrow> real" where
  \<comment> \<open>\<^verbatim>\<open>times.reduce((a, b) => a + b, 0)\<close>\<close>
  "reduce_sum ts = foldl (\<lambda>a b. a + b) 0 ts"

definition divide_by_length :: "real \<Rightarrow> nat \<Rightarrow> number" where
  \<comment> \<open>\<^verbatim>\<open>x / times.length\<close>: division by zero gives NaN or an infinity\<close>
  "divide_by_length x n =
     (if n \<noteq> 0 then Fin (x / real n)
      else if x = 0 then NaN else if 0 < x then Infinity else NegInfinity)"

definition Math_min :: "real list \<Rightarrow> number" where
  "Math_min xs = (case xs of [] \<Rightarrow> Infinity | x # r \<Rightarrow> Fin (foldl min x r))"

definition Math_max :: "real list \<Rightarrow> number" where
  "Math_max xs = (case xs of [] \<Rightarrow> NegInfinity | x # r \<Rightarrow> Fin (foldl max x r))"

definition sort_ascending :: "real list \<Rightarrow> real list" where
  \<comment> \<open>\<^verbatim>\<open>times.sort((a, b) => a - b)\<close>\<close>
  "sort_ascending ts = sort ts"

definition index :: "'a list \<Rightarrow> nat \<Rightarrow> 'a option" where
  \<comment> \<open>\<^verbatim>\<open>xs[i]\<close>: \<^verbatim>\<open>undefined\<close> (here \<open>None\<close>) past the end\<close>
  "index xs i = (if i < length xs then Some (xs ! i) else None)"

definition calculate_statistics :: "real list \<Rightarrow> number \<times> real option \<times> number \<times> number" where
  \<comment> \<open>Lines 200-204: \<^verbatim>\<open>avg\<close>, \<^verbatim>\<open>median\<close> (\<open>None\<close> when it is \<^verbatim>\<open>undefined\<close>),
      \<^verbatim>\<open>min\<close> and \<^verbatim>\<open>max\<close>. There is no check for an empty array.\<close>
  "calculate_statistics ts =
     (let a = divide_by_length (reduce_sum ts) (length ts);
          mn = Math_min ts;
          mx = Math_max ts;
          sorted = sort_ascending ts;
          m = index sorted (length sorted div 2)
      in (a, m, mn, mx))"

definition statistics :: "real list \<Rightarrow> error + summary" where
  \<comment> \<open>Lines 200-212. After the four values are computed, lines 206-210 print them;
      \<^verbatim>\<open>avg.toFixed(3)\<close> on line 207 prints NaN as it prints any number, and
      \<^verbatim>\<open>median.toFixed(3)\<close> on line 208 throws a TypeError when \<^verbatim>\<open>median\<close> is
      \<^verbatim>\<open>undefined\<close>; otherwise line 212 returns the summary.\<close>
  "statistics ts =
     (case calculate_statistics ts of
        (a, None, mn, mx) \<Rightarrow> Inl TypeError
      | (a, Some m, mn, mx) \<Rightarrow> Inr \<lparr>avg = a, median = m, min_time = mn, max_time = mx\<rparr>)"

section \<open>Buffers and the hex encoding\<close>

type_synonym byte = "8 word"
type_synonym buffer = "byte list"

definition digit_chars :: string where
  "digit_chars = ''0123456789abcdef''"

definition digit_char :: "nat \<Rightarrow> char" where
  "digit_char n = digit_chars ! n"

definition digit_table :: "(char \<times> nat) list" where
  "digit_table =
     [(CHR ''0'', 0), (CHR ''1'', 1), (CHR ''2'', 2), (CHR ''3'', 3), (CHR ''4'', 4),
      (CHR ''5'', 5), (CHR ''6'', 6), (CHR ''7'', 7), (CHR ''8'', 8), (CHR ''9'', 9),
      (CHR ''a'', 10), (CHR ''b'', 11), (CHR ''c'', 12), (CHR ''d'', 13), (CHR ''e'', 14),
      (CHR ''f'', 15),
      (CHR ''A'', 10), (CHR ''B'', 11), (CHR ''C'', 12), (CHR ''D'', 13), (CHR ''E'', 14),
      (CHR ''F'', 15)]"

definition digit_value :: "nat \<Rightarrow> char \<Rightarrow> nat option" where
  \<comment> \<open>the value of a digit in the given radix (10 or 16), if it is one\<close>
  "digit_value radix c =
     (case map_of digit_table c of
        None \<Rightarrow> None
      | Some v \<Rightarrow> if v < radix then Some v else None)"

definition toString_hex :: "buffer \<Rightarrow> string" where
  \<comment> \<open>\<^verbatim>\<open>buf.toString('hex')\<close>: two lower-case digits per byte\<close>
  "toString_hex buf =
     concat (map (\<lambda>b. [digit_char (unat b div 16), digit_char (unat b mod 16)]) buf)"

fun from_hex :: "string \<Rightarrow> buffer" where
  \<comment> \<open>\<^verbatim>\<open>Buffer.from(s, 'hex')\<close>: decoding stops at the first pair that is not two
      hex digits, and a trailing single character is dropped\<close>
  "from_hex (c # d # rest) =
     (case (digit_value 16 c, digit_value 16 d) of
        (Some h, Some l) \<Rightarrow> word_of_nat (16 * h + l) # from_hex rest
      | _ \<Rightarrow> [])"
| "from_hex _ = []"

definition slice_buf :: "'a list \<Rightarrow> nat \<Rightarrow> nat \<Rightarrow> 'a list" where
  \<comment> \<open>\<^verbatim>\<open>buf.slice(start, end)\<close> for \<open>start \<le> end\<close>; the end is clamped to the length\<close>
  "slice_buf buf start end = take (end - start) (drop start buf)"

definition randomBytes :: "(nat \<Rightarrow> nat \<Rightarrow> byte) \<Rightarrow> nat \<Rightarrow> nat \<Rightarrow> buffer" where
  \<comment> \<open>\<^verbatim>\<open>crypto.randomBytes(n)\<close>: the generator is a parameter, \<open>rnd k j\<close> being byte
      \<open>j\<close> of its \<open>k\<close>-th draw; the caller counts the draws\<close>
  "randomBytes rnd k n = map (rnd k) [0..<n]"

section \<open>The interface of Node's crypto module\<close>

text \<open>
  The ciphers themselves (AES-256-GCM, ChaCha20-Poly1305, RSA-OAEP) and the UTF-8 codec
  are Node's, not this repository's. They are parameters of the model, collected in one
  record. Both symmetric ciphers are stream-like authenticated ciphers: the ciphertext
  has the length of the plaintext, \<^verbatim>\<open>update\<close> returns all of it, \<^verbatim>\<open>final\<close>
  returns nothing more, and the tag is a function of key, nonce and ciphertext that
  \<^verbatim>\<open>decipher.final\<close> recomputes and compares with the tag it was given.
\<close>

datatype algorithm = AES_256_GCM | CHACHA20_POLY1305

record ('pub, 'priv) crypto =
  utf8_encode :: "string \<Rightarrow> buffer"
  utf8_decode :: "buffer \<Rightarrow> string"
  stream_encrypt :: "algorithm \<Rightarrow> buffer \<Rightarrow> buffer \<Rightarrow> buffer \<Rightarrow> buffer"
  stream_decrypt :: "algorithm \<Rightarrow> buffer \<Rightarrow> buffer \<Rightarrow> buffer \<Rightarrow> buffer"
  compute_tag :: "algorithm \<Rightarrow> buffer \<Rightarrow> buffer \<Rightarrow> buffer \<Rightarrow> buffer"
  modulus_length :: "'pub \<Rightarrow> nat"
  oaep_encrypt :: "'pub \<Rightarrow> buffer \<Rightarrow> buffer \<Rightarrow> buffer"
  oaep_decrypt :: "'priv \<Rightarrow> buffer \<Rightarrow> buffer option"

record cipher =
  cipher_algorithm :: algorithm
  cipher_key :: buffer
  cipher_iv :: buffer
  authTagLength :: "nat option"
  cipher_tag :: buffer

definition valid_iv_length :: "algorithm \<Rightarrow> nat \<Rightarrow> bool" where
  "valid_iv_length alg n =
     (case alg of AES_256_GCM \<Rightarrow> 0 < n | CHACHA20_POLY1305 \<Rightarrow> 0 < n \<and> n \<le> 12)"

definition createCipheriv ::
  "algorithm \<Rightarrow> buffer \<Rightarrow> buffer \<Rightarrow> nat option \<Rightarrow> error + cipher" where
  \<comment> \<open>\<^verbatim>\<open>crypto.createCipheriv\<close> and \<^verbatim>\<open>crypto.createDecipheriv\<close>: both ciphers take
      a 32-byte key\<close>
  "createCipheriv alg key nonce tag_len =
     (if length key \<noteq> 32 then Inl InvalidKeyLength
      else if \<not> valid_iv_length alg (length nonce) then Inl InvalidIV
      else Inr \<lparr>cipher_algorithm = alg, cipher_key = key, cipher_iv = nonce,
                authTagLength = tag_len, cipher_tag = []\<rparr>)"

definition cipher_update :: "('pub, 'priv) crypto \<Rightarrow> cipher \<Rightarrow> buffer \<Rightarrow> buffer" where
  "cipher_update L c data =
     stream_encrypt L (cipher_algorithm c) (cipher_key c) (cipher_iv c) data"

definition cipher_final :: "cipher \<Rightarrow> buffer" where
  \<comment> \<open>\<^verbatim>\<open>cipher.final()\<close>: both ciphers have given out all of the ciphertext before\<close>
  "cipher_final c = []"

definition getAuthTag :: "('pub, 'priv) crypto \<Rightarrow> cipher \<Rightarrow> buffer \<Rightarrow> buffer" where
  \<comment> \<open>the tag over the ciphertext the cipher has produced\<close>
  "getAuthTag L c ciphertext =
     compute_tag L (cipher_algorithm c) (cipher_key c) (cipher_iv c) ciphertext"

definition valid_tag_length :: "cipher \<Rightarrow> nat \<Rightarrow> bool" where
  \<comment> \<open>GCM without \<^verbatim>\<open>authTagLength\<close> accepts tags of 4, 8 and 12 to 16 bytes; with
      \<^verbatim>\<open>authTagLength\<close> the tag has exactly that length\<close>
  "valid_tag_length c n =
     (case authTagLength c of
        Some m \<Rightarrow> n = m
      | None \<Rightarrow> n = 4 \<or> n = 8 \<or> (12 \<le> n \<and> n \<le> 16))"

definition setAuthTag :: "cipher \<Rightarrow> buffer \<Rightarrow> error + cipher" where
  "setAuthTag c tag =
     (if valid_tag_length c (length tag) then Inr (c\<lparr>cipher_tag := tag\<rparr>)
      else Inl InvalidAuthTagLength)"

definition decipher_update :: "('pub, 'priv) crypto \<Rightarrow> cipher \<Rightarrow> buffer \<Rightarrow> buffer" where
  "decipher_update L c data =
     stream_decrypt L (cipher_algorithm c) (cipher_key c) (cipher_iv c) data"

definition decipher_final :: "('pub, 'priv) crypto \<Rightarrow> cipher \<Rightarrow> buffer \<Rightarrow> error + buffer" where
  \<comment> \<open>\<^verbatim>\<open>decipher.final()\<close> after \<^verbatim>\<open>update\<close> has consumed \<open>ciphertext\<close>: throws
      unless the tag given to \<^verbatim>\<open>setAuthTag\<close> is the tag of the ciphertext (compared
      over the length of the given tag)\<close>
  "decipher_final L c ciphertext =
     (if take (length (cipher_tag c))
           (compute_tag L (cipher_algorithm c) (cipher_key c) (cipher_iv c) ciphertext)
         = cipher_tag c
      then Inr [] else Inl AuthenticationFailure)"

definition publicEncrypt ::
  "('pub, 'priv) crypto \<Rightarrow> 'pub \<Rightarrow> buffer \<Rightarrow> buffer \<Rightarrow> error + buffer" where
  \<comment> \<open>\<^verbatim>\<open>crypto.publicEncrypt\<close> with OAEP and SHA-256: a message longer than the
      modulus minus 2 * 32 + 2 bytes is refused; \<open>seed\<close> is the padding's randomness\<close>
  "publicEncrypt L pub seed msg =
     (if modulus_length L pub div 8 < length msg + 66 then Inl DataTooLarge
      else Inr (oaep_encrypt L pub seed msg))"

definition privateDecrypt ::
  "('pub, 'priv) crypto \<Rightarrow> 'priv \<Rightarrow> buffer \<Rightarrow> error + buffer" where
  "privateDecrypt L priv c =
     (case oaep_decrypt L priv c of None \<Rightarrow> Inl DecryptionFailure | Some m \<Rightarrow> Inr m)"

section \<open>The cipher functions of client.js\<close>

record sym_envelope =
  encrypted :: string
  iv :: string
  authTag :: string

record asym_envelope =
  encrypted_chunks :: "string list"   \<comment> \<open>the field \<^verbatim>\<open>encrypted\<close> of \<^verbatim>\<open>encryptRSA\<close>\<close>
  chunkCount :: nat

definition encrypt_with ::
  "algorithm \<Rightarrow> nat \<Rightarrow> nat option \<Rightarrow> ('pub, 'priv) crypto \<Rightarrow> (nat \<Rightarrow> nat \<Rightarrow> byte) \<Rightarrow>
   string \<Rightarrow> buffer \<Rightarrow> nat \<Rightarrow> (error + sym_envelope) \<times> nat" where
  \<comment> \<open>the common body of \<^verbatim>\<open>encryptAES\<close> and \<^verbatim>\<open>encryptChaCha20\<close>, which differ in
      the cipher's name, the nonce length and the \<^verbatim>\<open>authTagLength\<close> option\<close>
  "encrypt_with alg iv_len tag_len L rnd txt key k =
     (let nonce = randomBytes rnd k iv_len
      in case createCipheriv alg key nonce tag_len of
           Inl e \<Rightarrow> (Inl e, Suc k)
         | Inr c \<Rightarrow>
             (let ciphertext = cipher_update L c (utf8_encode L txt);
                  enc = toString_hex ciphertext @ toString_hex (cipher_final c);
                  tag = getAuthTag L c ciphertext
              in (Inr \<lparr>encrypted = enc, iv = toString_hex nonce,
                        authTag = toString_hex tag\<rparr>, Suc k)))"

definition decrypt_with ::
  "algorithm \<Rightarrow> nat option \<Rightarrow> ('pub, 'priv) crypto \<Rightarrow> sym_envelope \<Rightarrow> buffer \<Rightarrow>
   error + string" where
  \<comment> \<open>the common body of \<^verbatim>\<open>decryptAES\<close> and \<^verbatim>\<open>decryptChaCha20\<close>\<close>
  "decrypt_with alg tag_len L encryptedData key =
     (case createCipheriv alg key (from_hex (iv encryptedData)) tag_len of
        Inl e \<Rightarrow> Inl e
      | Inr d0 \<Rightarrow>
          (case setAuthTag d0 (from_hex (authTag encryptedData)) of
             Inl e \<Rightarrow> Inl e
           | Inr d \<Rightarrow>
               (let ciphertext = from_hex (encrypted encryptedData);
                    plain = decipher_update L d ciphertext
                in case decipher_final L d ciphertext of
                     Inl e \<Rightarrow> Inl e
                   | Inr rest \<Rightarrow> Inr (utf8_decode L (plain @ rest)))))"

definition encryptAES ::
  "('pub, 'priv) crypto \<Rightarrow> (nat \<Rightarrow> nat \<Rightarrow> byte) \<Rightarrow> string \<Rightarrow> buffer \<Rightarrow> nat \<Rightarrow>
   (error + sym_envelope) \<times> nat" where
  "encryptAES = encrypt_with AES_256_GCM 16 None"

definition decryptAES ::
  "('pub, 'priv) crypto \<Rightarrow> sym_envelope \<Rightarrow> buffer \<Rightarrow> error + string" where
  "decryptAES = decrypt_with AES_256_GCM None"

definition encryptChaCha20 ::
  "('pub, 'priv) crypto \<Rightarrow> (nat \<Rightarrow> nat \<Rightarrow> byte) \<Rightarrow> string \<Rightarrow> buffer \<Rightarrow> nat \<Rightarrow>
   (error + sym_envelope) \<times> nat" where
  "encryptChaCha20 = encrypt_with CHACHA20_POLY1305 12 (Some 16)"

definition decryptChaCha20 ::
  "('pub, 'priv) crypto \<Rightarrow> sym_envelope \<Rightarrow> buffer \<Rightarrow> error + string" where
  "decryptChaCha20 = decrypt_with CHACHA20_POLY1305 (Some 16)"

definition maxChunkSize :: nat where
  "maxChunkSize = 190"

function encryptRSA_loop ::
  "('pub, 'priv) crypto \<Rightarrow> (nat \<Rightarrow> nat \<Rightarrow> byte) \<Rightarrow> 'pub \<Rightarrow> buffer \<Rightarrow> nat \<Rightarrow> nat \<Rightarrow>
   string list \<Rightarrow> (error + string list) \<times> nat" where
  \<comment> \<open>the \<^verbatim>\<open>for\<close> loop of \<^verbatim>\<open>encryptRSA\<close> from index \<open>i\<close>; every call of
      \<^verbatim>\<open>publicEncrypt\<close> draws a fresh 32-byte padding seed\<close>
  "encryptRSA_loop L rnd publicKey textBuffer i k chunks =
     (if i < length textBuffer then
        (let chunk = slice_buf textBuffer i (i + maxChunkSize)
         in case publicEncrypt L publicKey (randomBytes rnd k 32) chunk of
              Inl e \<Rightarrow> (Inl e, Suc k)
            | Inr enc \<Rightarrow>
                encryptRSA_loop L rnd publicKey textBuffer (i + maxChunkSize) (Suc k)
                  (chunks @ [toString_hex enc]))
      else (Inr chunks, k))"
  by pat_completeness auto
termination
  by (relation "measure (\<lambda>(L, rnd, publicKey, textBuffer, i, k, chunks). length textBuffer - i)")
     (auto simp: maxChunkSize_def)

declare encryptRSA_loop.simps [simp del]

definition encryptRSA ::
  "('pub, 'priv) crypto \<Rightarrow> (nat \<Rightarrow> nat \<Rightarrow> byte) \<Rightarrow> string \<Rightarrow> 'pub \<Rightarrow> nat \<Rightarrow>
   (error + asym_envelope) \<times> nat" where
  "encryptRSA L rnd txt publicKey k =
     (case encryptRSA_loop L rnd publicKey (utf8_encode L txt) 0 k [] of
        (Inl e, k') \<Rightarrow> (Inl e, k')
      | (Inr chunks, k') \<Rightarrow>
          (Inr \<lparr>encrypted_chunks = chunks, chunkCount = length chunks\<rparr>, k'))"

fun decryptRSA_loop ::
  "('pub, 'priv) crypto \<Rightarrow> 'priv \<Rightarrow> string list \<Rightarrow> buffer list \<Rightarrow> error + buffer list" where
  \<comment> \<open>the \<^verbatim>\<open>for ... of\<close> loop of \<^verbatim>\<open>decryptRSA\<close>\<close>
  "decryptRSA_loop L privateKey [] decryptedChunks = Inr decryptedChunks"
| "decryptRSA_loop L privateKey (chunk # chunks) decryptedChunks =
     (case privateDecrypt L privateKey (from_hex chunk) of
        Inl e \<Rightarrow> Inl e
      | Inr decrypted \<Rightarrow>
          decryptRSA_loop L privateKey chunks (decryptedChunks @ [decrypted]))"

definition fullBuffer ::
  "('pub, 'priv) crypto \<Rightarrow> asym_envelope \<Rightarrow> 'priv \<Rightarrow> error + buffer" where
  \<comment> \<open>\<^verbatim>\<open>Buffer.concat(decryptedChunks)\<close>\<close>
  "fullBuffer L encryptedData privateKey =
     (case decryptRSA_loop L privateKey (encrypted_chunks encryptedData) [] of
        Inl e \<Rightarrow> Inl e
      | Inr decryptedChunks \<Rightarrow> Inr (concat decryptedChunks))"

definition decryptRSA ::
  "('pub, 'priv) crypto \<Rightarrow> asym_envelope \<Rightarrow> 'priv \<Rightarrow> error + string" where
  "decryptRSA L encryptedData privateKey =
     (case fullBuffer L encryptedData privateKey of
        Inl e \<Rightarrow> Inl e
      | Inr buf \<Rightarrow> Inr (utf8_decode L buf))"

section \<open>JSON values and JavaScript conversions\<close>

datatype json =
    JNull
  | JBool bool
  | JNum int
  | JStr string
  | JArr "json list"
  | JObj "(string \<times> json) list"

text \<open>
  A value that may be \<^verbatim>\<open>undefined\<close> is a \<open>json option\<close>. Numbers in the traffic
  between client and server are identifiers, so \<open>JNum\<close> carries an integer.
\<close>

definition truthy :: "json option \<Rightarrow> bool" where
  \<comment> \<open>JavaScript's ToBoolean: \<^verbatim>\<open>!v\<close> is \<open>\<not> truthy v\<close>\<close>
  "truthy v =
     (case v of
        None \<Rightarrow> False
      | Some JNull \<Rightarrow> False
      | Some (JBool b) \<Rightarrow> b
      | Some (JNum n) \<Rightarrow> n \<noteq> 0
      | Some (JStr s) \<Rightarrow> s \<noteq> []
      | Some (JArr _) \<Rightarrow> True
      | Some (JObj _) \<Rightarrow> True)"

function decimal :: "nat \<Rightarrow> string" where
  "decimal n = (if n < 10 then [digit_char n] else decimal (n div 10) @ [digit_char (n mod 10)])"
  by pat_completeness auto
termination
  by (relation "measure (\<lambda>n. n)") auto

declare decimal.simps [simp del]

definition int_string :: "int \<Rightarrow> string" where
  \<comment> \<open>Number to string, for integers below the range of exponent notation\<close>
  "int_string i = (if i < 0 then CHR ''-'' # decimal (nat (- i)) else decimal (nat i))"

fun intercalate :: "string \<Rightarrow> string list \<Rightarrow> string" where
  "intercalate sep [] = []"
| "intercalate sep [x] = x"
| "intercalate sep (x # y # ys) = x @ sep @ intercalate sep (y # ys)"

fun json_string :: "json \<Rightarrow> string" where
  \<comment> \<open>ToString of a value, as a template literal applies it\<close>
  "json_string JNull = ''null''"
| "json_string (JBool b) = (if b then ''true'' else ''false'')"
| "json_string (JNum n) = int_string n"
| "json_string (JStr s) = s"
| "json_string (JArr xs) =
     intercalate '','' (map (\<lambda>x. if x = JNull then [] else json_string x) xs)"
| "json_string (JObj _) = ''[object Object]''"

definition js_string :: "json option \<Rightarrow> string" where
  "js_string v = (case v of None \<Rightarrow> ''undefined'' | Some x \<Rightarrow> json_string x)"

definition is_space :: "char \<Rightarrow> bool" where
  "is_space c = (of_char c \<in> {9, 10, 11, 12, 13, 32, 160 :: nat})"

definition parse_digits :: "nat \<Rightarrow> string \<Rightarrow> nat" where
  "parse_digits radix ds =
     foldl (\<lambda>a c. a * radix + (case digit_value radix c of None \<Rightarrow> 0 | Some v \<Rightarrow> v)) 0 ds"

definition parseInt :: "string \<Rightarrow> int option" where
  \<comment> \<open>\<^verbatim>\<open>parseInt(s)\<close> without a radix; \<open>None\<close> is NaN. Leading white space, a sign and
      a \<^verbatim>\<open>0x\<close> prefix are accepted, and parsing stops at the first non-digit.\<close>
  "parseInt s =
     (let s1 = dropWhile is_space s;
          negative = (case s1 of c # _ \<Rightarrow> c = CHR ''-'' | [] \<Rightarrow> False);
          s2 = (case s1 of c # r \<Rightarrow> if c = CHR ''-'' \<or> c = CHR ''+'' then r else s1 | [] \<Rightarrow> s1);
          hex = (case s2 of c # x # _ \<Rightarrow> c = CHR ''0'' \<and> (x = CHR ''x'' \<or> x = CHR ''X'')
                 | _ \<Rightarrow> False);
          radix = (if hex then 16 else 10);
          s3 = (if hex then drop 2 s2 else s2);
          ds = takeWhile (\<lambda>c. digit_value radix c \<noteq> None) s3
      in if ds = [] then None
         else Some ((if negative then - 1 else 1) * int (parse_digits radix ds)))"

section \<open>The server (the express application)\<close>

record stored =
  rec_id :: nat            \<comment> \<open>field \<^verbatim>\<open>id\<close>\<close>
  rec_text :: json         \<comment> \<open>field \<^verbatim>\<open>text\<close>\<close>
  rec_timestamp :: string  \<comment> \<open>field \<^verbatim>\<open>timestamp\<close>, as the date is written in JSON\<close>

datatype body = JsonBody json | TextBody string

definition stored_json :: "stored \<Rightarrow> json" where
  "stored_json r =
     JObj [(''id'', JNum (int (rec_id r))), (''text'', rec_text r),
           (''timestamp'', JStr (rec_timestamp r))]"

definition post_store ::
  "(string \<times> json) list \<Rightarrow> string \<Rightarrow> stored list \<Rightarrow> (nat \<times> body) \<times> stored list" where
  \<comment> \<open>\<^verbatim>\<open>app.post('/store', ...)\<close>: \<open>req_body\<close> is the parsed request body, \<open>now\<close> is
      \<^verbatim>\<open>new Date()\<close>, \<open>strings\<close> is the server's array\<close>
  "post_store req_body now strings =
     (let txt = map_of req_body ''text''
      in if \<not> truthy txt then
           ((400, JsonBody (JObj [(''error'', JStr ''Text field is required'')])), strings)
         else
           (let i = length strings;
                t = (case txt of Some v \<Rightarrow> v | None \<Rightarrow> JNull)
            in ((201, JsonBody (JObj [(''message'', JStr ''String stored successfully''),
                                      (''id'', JNum (int i)), (''text'', t)])),
                strings @ [\<lparr>rec_id = i, rec_text = t, rec_timestamp = now\<rparr>])))"

definition get_strings :: "stored list \<Rightarrow> nat \<times> body" where
  \<comment> \<open>\<^verbatim>\<open>app.get('/strings', ...)\<close>\<close>
  "get_strings strings =
     (200, JsonBody (JObj [(''count'', JNum (int (length strings))),
                           (''strings'', JArr (map stored_json strings))]))"

definition get_string :: "string \<Rightarrow> stored list \<Rightarrow> nat \<times> body" where
  \<comment> \<open>\<^verbatim>\<open>app.get('/strings/:id', ...)\<close>: \<open>param\<close> is \<^verbatim>\<open>req.params.id\<close>. Reading the
      array at NaN, at a negative index or past the end gives \<^verbatim>\<open>undefined\<close>.\<close>
  "get_string param strings =
     (let str = (case parseInt param of
                   None \<Rightarrow> None
                 | Some i \<Rightarrow> if i < 0 then None else index strings (nat i))
      in case str of
           None \<Rightarrow> (404, JsonBody (JObj [(''error'', JStr ''String not found'')]))
         | Some r \<Rightarrow> (200, JsonBody (stored_json r)))"

definition string_route :: "string \<Rightarrow> string option" where
  \<comment> \<open>the parameter of a path that matches \<^verbatim>\<open>/strings/:id\<close>\<close>
  "string_route path =
     (if take 9 path = ''/strings/'' \<and> drop 9 path \<noteq> [] \<and> CHR ''/'' \<notin> set (drop 9 path)
      then Some (drop 9 path) else None)"

definition express_json :: "(json \<Rightarrow> bool) \<Rightarrow> json option \<Rightarrow> (nat \<times> body) + (string \<times> json) list" where
  \<comment> \<open>\<^verbatim>\<open>app.use(express.json())\<close>: the parsed \<^verbatim>\<open>req.body\<close>, or the error response.
      \<open>accepts\<close> says whether the parser takes the body (it refuses one over its size
      limit). A request without a body has \<^verbatim>\<open>req.body = {}\<close>; a body that is neither
      an object nor an array is refused; an array has no field \<^verbatim>\<open>text\<close>.\<close>
  "express_json accepts data =
     (case data of
        None \<Rightarrow> Inr []
      | Some d \<Rightarrow>
          if \<not> accepts d then Inl (413, TextBody ''request entity too large'')
          else (case d of
                  JObj obj \<Rightarrow> Inr obj
                | JArr _ \<Rightarrow> Inr []
                | _ \<Rightarrow> Inl (400, TextBody ''Bad Request'')))"

definition routes ::
  "string \<Rightarrow> string \<Rightarrow> (string \<times> json) list \<Rightarrow> string \<Rightarrow> stored list \<Rightarrow>
   (nat \<times> body) \<times> stored list" where
  \<comment> \<open>the three routes of the application; any other request gets the framework's
      404 page\<close>
  "routes method path req_body now strings =
     (if method = ''POST'' \<and> path = ''/store'' then post_store req_body now strings
      else if method = ''GET'' \<and> path = ''/strings'' then (get_strings strings, strings)
      else (case string_route path of
              Some param \<Rightarrow>
                if method = ''GET'' then (get_string param strings, strings)
                else ((404, TextBody ''Cannot''), strings)
            | None \<Rightarrow> ((404, TextBody ''Cannot''), strings)))"

definition server ::
  "(json \<Rightarrow> bool) \<Rightarrow> (nat \<Rightarrow> string) \<Rightarrow> string \<Rightarrow> string \<Rightarrow> json option \<Rightarrow> stored list \<Rightarrow>
   (nat \<times> body) \<times> stored list" where
  \<comment> \<open>One request served: \<open>date k\<close> is \<^verbatim>\<open>new Date()\<close> when \<open>k\<close> records are stored.\<close>
  "server accepts date method path data strings =
     (case express_json accepts data of
        Inl response \<Rightarrow> (response, strings)
      | Inr req_body \<Rightarrow> routes method path req_body (date (length strings)) strings)"

fun serve_all ::
  "(json \<Rightarrow> bool) \<Rightarrow> (nat \<Rightarrow> string) \<Rightarrow> (string \<times> string \<times> json option) list \<Rightarrow>
   stored list \<Rightarrow> (nat \<times> body) list \<times> stored list" where
  \<comment> \<open>the server serving a sequence of requests (method, path, body), one after the
      other: the responses in order, and the array at the end\<close>
  "serve_all accepts date [] strings = ([], strings)"
| "serve_all accepts date ((method, path, data) # rest) strings =
     (case server accepts date method path data strings of
        (response, strings') \<Rightarrow>
          (case serve_all accepts date rest strings' of
             (responses, final) \<Rightarrow> (response # responses, final)))"

definition stored_id :: "nat \<times> body \<Rightarrow> int option" where
  \<comment> \<open>the identifier in the response to a successful store (status 201)\<close>
  "stored_id response =
     (case response of
        (status, JsonBody (JObj obj)) \<Rightarrow>
          if status = 201
          then (case map_of obj ''id'' of Some (JNum i) \<Rightarrow> Some i | _ \<Rightarrow> None)
          else None
      | _ \<Rightarrow> None)"

section \<open>The client's view of the world\<close>

text \<open>
  What the client cannot compute is a parameter: the high-resolution clock
  (\<open>hrtime_at k\<close> is the \<open>k\<close>-th reading of \<^verbatim>\<open>process.hrtime.bigint()\<close>, in
  nanoseconds), the server's date, whether the \<open>k\<close>-th request reaches the server, and
  what the server's body parser accepts. The random generator is a parameter of the
  cipher functions. What changes while the client runs is the state: the server's
  array, the requests sent so far, and how often the generator and the clock have
  been used.
\<close>

record environment =
  hrtime_at :: "nat \<Rightarrow> int"
  date_at :: "nat \<Rightarrow> string"
  connects :: "nat \<Rightarrow> bool"
  accepts :: "json \<Rightarrow> bool"

record world =
  server_strings :: "stored list"
  requests :: "(string \<times> string \<times> json option) list"
  draws :: nat
  clock_reads :: nat

definition makeRequest ::
  "environment \<Rightarrow> string \<Rightarrow> string \<Rightarrow> json option \<Rightarrow> world \<Rightarrow> (error + body) \<times> world" where
  \<comment> \<open>One HTTP request. The promise is rejected only by the request's \<^verbatim>\<open>'error'\<close>
      event; once a response ends, it is resolved with the body, parsed as JSON when
      that is possible, and the status code is not read. A body is written only for
      truthy \<open>data\<close>.\<close>
  "makeRequest orc method path data w =
     (let written = (if truthy data then data else None);
          k = length (requests w);
          w1 = w\<lparr>requests := requests w @ [(method, path, written)]\<rparr>
      in if \<not> connects orc k then (Inl NetworkError, w1)
         else
           (case server (accepts orc) (date_at orc) method path written (server_strings w1) of
              ((status, response), strings') \<Rightarrow> (Inr response, w1\<lparr>server_strings := strings'\<rparr>)))"

definition get_prop :: "body \<Rightarrow> string \<Rightarrow> error + json option" where
  \<comment> \<open>\<^verbatim>\<open>response.name\<close> for the names \<^verbatim>\<open>id\<close> and \<^verbatim>\<open>text\<close>: \<^verbatim>\<open>undefined\<close> unless
      the response is an object with that field; reading a property of \<^verbatim>\<open>null\<close>
      throws\<close>
  "get_prop response name =
     (case response of
        JsonBody (JObj obj) \<Rightarrow> Inr (map_of obj name)
      | JsonBody JNull \<Rightarrow> Inl TypeError
      | _ \<Rightarrow> Inr None)"

section \<open>The benchmark (client.js, lines 161-213)\<close>

type_synonym ('k, 'e) encryptFn = "string \<Rightarrow> 'k \<Rightarrow> nat \<Rightarrow> (error + 'e) \<times> nat"
type_synonym ('k, 'e) decryptFn = "'e \<Rightarrow> 'k \<Rightarrow> error + string"

text \<open>
  \<^verbatim>\<open>benchmark\<close> is written once for every strategy, so the model is polymorphic in
  the envelope \<open>'e\<close> and the key \<open>'k\<close>. \<open>stringify\<close> is \<^verbatim>\<open>JSON.stringify\<close> on
  envelopes; \<open>parse\<close> is \<^verbatim>\<open>JSON.parse\<close> followed by the reading of the envelope's
  fields, and fails on text that is not JSON or has not the envelope's fields.
\<close>

definition send_data ::
  "('e \<Rightarrow> string) \<Rightarrow> ('k, 'e) encryptFn option \<Rightarrow> 'k \<Rightarrow> string \<Rightarrow> world \<Rightarrow>
   (error + string) \<times> world" where
  \<comment> \<open>lines 171-175: \<^verbatim>\<open>dataToSend\<close>\<close>
  "send_data stringify encryptFn key txt w =
     (case encryptFn of
        None \<Rightarrow> (Inr txt, w)
      | Some f \<Rightarrow>
          (case f txt key (draws w) of
             (Inl e, k) \<Rightarrow> (Inl e, w\<lparr>draws := k\<rparr>)
           | (Inr enc, k) \<Rightarrow> (Inr (stringify enc), w\<lparr>draws := k\<rparr>)))"

definition check_decrypt ::
  "(string \<Rightarrow> error + 'e) \<Rightarrow> ('k, 'e) decryptFn option \<Rightarrow> 'k \<Rightarrow> string \<Rightarrow> body \<Rightarrow>
   error + unit" where
  \<comment> \<open>lines 185-192: nothing is checked without a decryption function\<close>
  "check_decrypt parse decryptFn key txt getResponse =
     (case decryptFn of
        None \<Rightarrow> Inr ()
      | Some g \<Rightarrow>
          (case get_prop getResponse ''text'' of
             Inl e \<Rightarrow> Inl e
           | Inr t \<Rightarrow>
               (case parse (js_string t) of
                  Inl e \<Rightarrow> Inl e
                | Inr encryptedData \<Rightarrow>
                    (case g encryptedData key of
                       Inl e \<Rightarrow> Inl e
                     | Inr decrypted \<Rightarrow>
                         if decrypted \<noteq> txt then Inl DataMismatch else Inr ()))))"

definition iteration ::
  "environment \<Rightarrow> ('e \<Rightarrow> string) \<Rightarrow> (string \<Rightarrow> error + 'e) \<Rightarrow> ('k, 'e) encryptFn option \<Rightarrow>
   ('k, 'e) decryptFn option \<Rightarrow> 'k \<Rightarrow> string \<Rightarrow> world \<Rightarrow> (error + real) \<times> world" where
  \<comment> \<open>the body of the \<^verbatim>\<open>for\<close> loop, lines 168-196; the result is the duration in
      milliseconds\<close>
  "iteration orc stringify parse encryptFn decryptFn key txt w0 =
     (let start = hrtime_at orc (clock_reads w0);
          w1 = w0\<lparr>clock_reads := Suc (clock_reads w0)\<rparr>
      in case send_data stringify encryptFn key txt w1 of
           (Inl e, w2) \<Rightarrow> (Inl e, w2)
         | (Inr dataToSend, w2) \<Rightarrow>
             (case makeRequest orc ''POST'' ''/store''
                     (Some (JObj [(''text'', JStr dataToSend)])) w2 of
                (Inl e, w3) \<Rightarrow> (Inl e, w3)
              | (Inr storeResponse, w3) \<Rightarrow>
                  (case get_prop storeResponse ''id'' of
                     Inl e \<Rightarrow> (Inl e, w3)
                   | Inr ident \<Rightarrow>
                       (case makeRequest orc ''GET'' (''/strings/'' @ js_string ident) None w3 of
                          (Inl e, w4) \<Rightarrow> (Inl e, w4)
                        | (Inr getResponse, w4) \<Rightarrow>
                            (case check_decrypt parse decryptFn key txt getResponse of
                               Inl e \<Rightarrow> (Inl e, w4)
                             | Inr _ \<Rightarrow>
                                 (let finish = hrtime_at orc (clock_reads w4);
                                      w5 = w4\<lparr>clock_reads := Suc (clock_reads w4)\<rparr>;
                                      duration = real_of_int (finish - start) / 1000000
                                  in (Inr duration, w5)))))))"

fun run_iterations ::
  "environment \<Rightarrow> ('e \<Rightarrow> string) \<Rightarrow> (string \<Rightarrow> error + 'e) \<Rightarrow> ('k, 'e) encryptFn option \<Rightarrow>
   ('k, 'e) decryptFn option \<Rightarrow> 'k \<Rightarrow> string \<Rightarrow> nat \<Rightarrow> real list \<Rightarrow> world \<Rightarrow>
   (error + real list) \<times> world" where
  \<comment> \<open>the \<^verbatim>\<open>for\<close> loop with \<open>n\<close> passes left and the durations \<open>ts\<close> pushed so far\<close>
  "run_iterations orc stringify parse encryptFn decryptFn key txt 0 ts w = (Inr ts, w)"
| "run_iterations orc stringify parse encryptFn decryptFn key txt (Suc n) ts w =
     (case iteration orc stringify parse encryptFn decryptFn key txt w of
        (Inl e, w') \<Rightarrow> (Inl e, w')
      | (Inr duration, w') \<Rightarrow>
          run_iterations orc stringify parse encryptFn decryptFn key txt n (ts @ [duration]) w')"

definition benchmark ::
  "environment \<Rightarrow> ('e \<Rightarrow> string) \<Rightarrow> (string \<Rightarrow> error + 'e) \<Rightarrow> ('k, 'e) encryptFn option \<Rightarrow>
   ('k, 'e) decryptFn option \<Rightarrow> 'k \<Rightarrow> string \<Rightarrow> int option \<Rightarrow> world \<Rightarrow>
   (error + summary) \<times> world" where
  \<comment> \<open>\<open>iterations = None\<close> is the omitted argument, which defaults to 100; the loop
      \<^verbatim>\<open>for (let i = 0; i < iterations; i++)\<close> makes no pass when \<open>iterations \<le> 0\<close>\<close>
  "benchmark orc stringify parse encryptFn decryptFn key txt iterations w =
     (let n = (case iterations of None \<Rightarrow> 100 | Some m \<Rightarrow> m)
      in case run_iterations orc stringify parse encryptFn decryptFn key txt (nat n) [] w of
           (Inl e, w') \<Rightarrow> (Inl e, w')
         | (Inr ts, w') \<Rightarrow> (statistics ts, w'))"

section \<open>Concrete inputs for the examples\<close>

definition example_requests :: "(string \<times> string \<times> json option) list" where
  "example_requests =
     [(''POST'', ''/store'', Some (JObj [(''text'', JStr ''a'')])),
      (''POST'', ''/store'', Some (JObj [(''text'', JStr [])])),
      (''GET'', ''/strings/0'', None),
      (''POST'', ''/store'', Some (JObj [(''text'', JStr ''b'')]))]"

definition example_responses :: "(nat \<times> body) list" where
  "example_responses =
     [(201, JsonBody (JObj [(''message'', JStr ''String stored successfully''),
                            (''id'', JNum 0), (''text'', JStr ''a'')])),
      (400, JsonBody (JObj [(''error'', JStr ''Text field is required'')])),
      (200, JsonBody (JObj [(''id'', JNum 0), (''text'', JStr ''a''), (''timestamp'', JStr ''d'')])),
      (201, JsonBody (JObj [(''message'', JStr ''String stored successfully''),
                            (''id'', JNum 1), (''text'', JStr ''b'')]))]"

definition example_final :: "stored list" where
  "example_final =
     [\<lparr>rec_id = 0, rec_text = JStr ''a'', rec_timestamp = ''d''\<rparr>,
      \<lparr>rec_id = 1, rec_text = JStr ''b'', rec_timestamp = ''d''\<rparr>]"

section \<open>What is assumed of Node's crypto module\<close>

text \<open>
  The assumptions under which the cipher functions are verified, each a documented
  property of the library: decoding inverts encoding for the text at hand (true of
  every well-formed string), decryption inverts encryption, tags have 16 bytes, and
  RSA-OAEP decryption with the private key inverts encryption with the public key for
  every message the key can take.
\<close>

definition utf8_roundtrip :: "('pub, 'priv) crypto \<Rightarrow> string \<Rightarrow> bool" where
  "utf8_roundtrip L txt = (utf8_decode L (utf8_encode L txt) = txt)"

definition stream_correct :: "('pub, 'priv) crypto \<Rightarrow> bool" where
  "stream_correct L =
     (\<forall>alg key nonce m. stream_decrypt L alg key nonce (stream_encrypt L alg key nonce m) = m)"

definition tag_16_bytes :: "('pub, 'priv) crypto \<Rightarrow> bool" where
  "tag_16_bytes L = (\<forall>alg key nonce c. length (compute_tag L alg key nonce c) = 16)"

definition oaep_correct :: "('pub, 'priv) crypto \<Rightarrow> 'pub \<Rightarrow> 'priv \<Rightarrow> bool" where
  "oaep_correct L pub priv =
     (\<forall>seed m. length m + 66 \<le> modulus_length L pub div 8 \<longrightarrow>
        oaep_decrypt L priv (oaep_encrypt L pub seed m) = Some m)"

definition toy_crypto :: "(nat, nat) crypto" where
  \<comment> \<open>a stand-in for the library, used to evaluate the model on concrete inputs: bytes
      are characters, the cipher flips bits, the tag is the first 16 bytes of
      ciphertext, key and padding, and the asymmetric cipher reverses the message\<close>
  "toy_crypto =
     \<lparr>utf8_encode = map (\<lambda>c. word_of_nat (of_char c)),
      utf8_decode = map (\<lambda>b. char_of (unat b)),
      stream_encrypt = (\<lambda>alg key nonce m. map (\<lambda>b. b XOR 90) m),
      stream_decrypt = (\<lambda>alg key nonce c. map (\<lambda>b. b XOR 90) c),
      compute_tag = (\<lambda>alg key nonce c. take 16 (c @ key @ replicate 16 0)),
      modulus_length = (\<lambda>pub. pub),
      oaep_encrypt = (\<lambda>pub seed m. rev m),
      oaep_decrypt = (\<lambda>priv c. Some (rev c))\<rparr>"

definition toy_random :: "nat \<Rightarrow> nat \<Rightarrow> byte" where
  "toy_random k j = word_of_nat (7 * k + j)"

definition toy_key :: buffer where
  "toy_key = replicate 32 1"

section \<open>The chunks of the asymmetric scheme, in closed form\<close>

definition chunk_count :: "nat \<Rightarrow> nat" where
  \<comment> \<open>the number of chunks of a buffer of \<open>len\<close> bytes: \<open>len / maxChunkSize\<close>, rounded up\<close>
  "chunk_count len = (len + (maxChunkSize - 1)) div maxChunkSize"

definition encrypted_chunk ::
  "('pub, 'priv) crypto \<Rightarrow> (nat \<Rightarrow> nat \<Rightarrow> byte) \<Rightarrow> 'pub \<Rightarrow> buffer \<Rightarrow> nat \<Rightarrow> nat \<Rightarrow> nat \<Rightarrow>
   string" where
  \<comment> \<open>chunk \<open>j\<close> of the loop that starts at index \<open>i\<close> with \<open>k\<close> draws made: the bytes
      from \<open>i + 190 * j\<close> up to \<open>i + 190 * j + 190\<close>, encrypted with the seed of draw
      \<open>k + j\<close>, in hex\<close>
  "encrypted_chunk L rnd pub buf i k j =
     toString_hex (oaep_encrypt L pub (randomBytes rnd (k + j) 32)
       (slice_buf buf (i + maxChunkSize * j) (i + maxChunkSize * j + maxChunkSize)))"

definition toy_envelope_aes :: sym_envelope where
  "toy_envelope_aes =
     \<lparr>encrypted = ''3233'', iv = ''000102030405060708090a0b0c0d0e0f'',
      authTag = ''32330101010101010101010101010101''\<rparr>"

definition toy_envelope_chacha :: sym_envelope where
  "toy_envelope_chacha =
     \<lparr>encrypted = ''3233'', iv = ''000102030405060708090a0b'',
      authTag = ''32330101010101010101010101010101''\<rparr>"

section \<open>When an iteration of the benchmark goes through\<close>

definition strategy_works ::
  "environment \<Rightarrow> ('e \<Rightarrow> string) \<Rightarrow> (string \<Rightarrow> error + 'e) \<Rightarrow> ('k, 'e) encryptFn option \<Rightarrow>
   ('k, 'e) decryptFn option \<Rightarrow> 'k \<Rightarrow> string \<Rightarrow> bool" where
  \<comment> \<open>in every state the data to send is produced without an error, is not empty and
      is accepted by the server's body parser, and the check of lines 185-192 passes
      on every stored record that carries it\<close>
  "strategy_works orc stringify parse encryptFn decryptFn key txt =
     (\<forall>w. \<exists>payload w'.
        send_data stringify encryptFn key txt w = (Inr payload, w') \<and>
        payload \<noteq> [] \<and>
        accepts orc (JObj [(''text'', JStr payload)]) \<and>
        (\<forall>r. rec_text r = JStr payload \<longrightarrow>
           check_decrypt parse decryptFn key txt (JsonBody (stored_json r)) = Inr ()))"

definition duration_at :: "environment \<Rightarrow> nat \<Rightarrow> real" where
  \<comment> \<open>the duration of an iteration whose first clock reading is the \<open>c\<close>-th\<close>
  "duration_at orc c = real_of_int (hrtime_at orc (Suc c) - hrtime_at orc c) / 1000000"

definition toy_stringify :: "sym_envelope \<Rightarrow> string" where
  \<comment> \<open>a stand-in for \<^verbatim>\<open>JSON.stringify\<close> on envelopes with a 16-byte nonce and tag\<close>
  "toy_stringify e = iv e @ authTag e @ encrypted e"

definition toy_parse :: "string \<Rightarrow> error + sym_envelope" where
  \<comment> \<open>the stand-in for \<^verbatim>\<open>JSON.parse\<close> that inverts it\<close>
  "toy_parse s =
     (if length s < 64 then Inl SyntaxError
      else Inr \<lparr>encrypted = drop 64 s, iv = take 32 s, authTag = take 32 (drop 32 s)\<rparr>)"

definition toy_accepts :: "json \<Rightarrow> bool" where
  \<comment> \<open>a body parser with a size limit: a text of more than 1000 characters is refused\<close>
  "toy_accepts d =
     (case d of
        JObj [(name, JStr s)] \<Rightarrow> length s \<le> 1000
      | _ \<Rightarrow> True)"

definition toy_env :: environment where
  \<comment> \<open>a server that is reachable from the second request on and has a size limit,
      and a clock that advances by one or more milliseconds between readings\<close>
  "toy_env =
     \<lparr>hrtime_at = (\<lambda>k. 1000000 * int (k * k)),
      date_at = (\<lambda>k. ''2024-01-01T00:00:00.000Z''),
      connects = (\<lambda>k. 0 < k),
      accepts = toy_accepts\<rparr>"

definition fresh_world :: world where
  "fresh_world = \<lparr>server_strings = [], requests = [], draws = 0, clock_reads = 0\<rparr>"

definition started_world :: world where
  \<comment> \<open>the world after one request that did not reach the server\<close>
  "started_world =
     \<lparr>server_strings = [], requests = [(''GET'', ''/strings'', None)], draws = 0,
      clock_reads = 0\<rparr>"

definition round_trip_requests :: "string \<times> string \<Rightarrow> (string \<times> string \<times> json option) list" where
  \<comment> \<open>the two requests of one iteration: the store of a payload, then the retrieval of
      an identifier\<close>
  "round_trip_requests = (\<lambda>(payload, ident).
     [(''POST'', ''/store'', Some (JObj [(''text'', JStr payload)])),
      (''GET'', ''/strings/'' @ ident, None)])"

definition carries ::
  "environment \<Rightarrow> ('e \<Rightarrow> string) \<Rightarrow> (string \<Rightarrow> error + 'e) \<Rightarrow> ('k, 'e) encryptFn \<Rightarrow> 'k \<Rightarrow>
   string \<Rightarrow> bool" where
  \<comment> \<open>for every envelope that the encryption of this plaintext with this key gives,
      \<^verbatim>\<open>JSON.parse\<close> inverts \<^verbatim>\<open>JSON.stringify\<close>, the text is not empty, and the
      server's body parser accepts the request that carries it\<close>
  "carries orc stringify parse encryptFn key txt =
     (\<forall>k e k'. encryptFn txt key k = (Inr e, k') \<longrightarrow>
        parse (stringify e) = Inr e \<and> stringify e \<noteq> [] \<and>
        accepts orc (JObj [(''text'', JStr (stringify e))]))"

definition flaky_env :: environment where
  \<comment> \<open>as \<open>toy_env\<close>, but every request reaches the server except the fourth\<close>
  "flaky_env = toy_env\<lparr>connects := (\<lambda>k. k \<noteq> 3)\<rparr>"

definition after_one_pass :: world where
  \<comment> \<open>the world after one pass of the benchmark without a strategy on the text
      \<^verbatim>\<open>hello\<close>, from \<open>fresh_world\<close>\<close>
  "after_one_pass =
     \<lparr>server_strings =
        [\<lparr>rec_id = 0, rec_text = JStr ''hello'', rec_timestamp = ''2024-01-01T00:00:00.000Z''\<rparr>],
      requests =
        [(''POST'', ''/store'', Some (JObj [(''text'', JStr ''hello'')])),
         (''GET'', ''/strings/0'', None)],
      draws = 0, clock_reads = 2\<rparr>"

section \<open>Properties of the statistics\<close>

lemma reduce_sum_eq: "reduce_sum ts = sum_list ts"
proof -
  have "foldl (\<lambda>a b. a + b) s xs = s + sum_list xs" for s :: real and xs
    by (induction xs arbitrary: s) simp_all
  then show ?thesis by (simp add: reduce_sum_def)
qed

lemma foldl_min_eq: "foldl min x r = Min (set (x # r))" for x :: real
proof (induction r arbitrary: x)
  case Nil
  show ?case by simp
next
  case (Cons y r)
  have "foldl min x (y # r) = Min (set (min x y # r))" using Cons.IH by simp
  also have "\<dots> = Min (set (x # y # r))"
    by (cases "r = []") (simp_all add: min.assoc)
  finally show ?case .
qed

lemma foldl_max_eq: "foldl max x r = Max (set (x # r))" for x :: real
proof (induction r arbitrary: x)
  case Nil
  show ?case by simp
next
  case (Cons y r)
  have "foldl max x (y # r) = Max (set (max x y # r))" using Cons.IH by simp
  also have "\<dots> = Max (set (x # y # r))"
    by (cases "r = []") (simp_all add: max.assoc)
  finally show ?case .
qed

lemma Math_min_nonempty: "ts \<noteq> [] \<Longrightarrow> Math_min ts = Fin (Min (set ts))"
  by (cases ts) (simp_all add: Math_min_def foldl_min_eq del: foldl.simps set_simps)

lemma Math_max_nonempty: "ts \<noteq> [] \<Longrightarrow> Math_max ts = Fin (Max (set ts))"
  by (cases ts) (simp_all add: Math_max_def foldl_max_eq del: foldl.simps set_simps)

lemma statistics_nonempty:
  assumes "ts \<noteq> []"
  shows "statistics ts =
     Inr \<lparr>avg = Fin (sum_list ts / real (length ts)),
          median = sort ts ! (length ts div 2),
          min_time = Fin (Min (set ts)),
          max_time = Fin (Max (set ts))\<rparr>"
proof -
  have n: "length ts \<noteq> 0" using assms by simp
  then have "length ts div 2 < length (sort ts)" by simp
  then have "index (sort ts) (length (sort ts) div 2) = Some (sort ts ! (length ts div 2))"
    by (simp add: index_def)
  then show ?thesis
    using n assms
    by (simp add: statistics_def calculate_statistics_def sort_ascending_def
        divide_by_length_def reduce_sum_eq Math_min_nonempty Math_max_nonempty)
qed


text \<open>
  Claim C8. For a non-empty array of durations the statistics are: the arithmetic mean
  as average, the smallest element as minimum, the largest as maximum, and as median
  the element at index \<open>n div 2\<close> of the array sorted in ascending order. In
  particular the durations 5, 1, 3 have minimum 1, maximum 5, average 3 and median 3.
\<close>

theorem statistics_of_durations:
  "(ts \<noteq> [] \<longrightarrow>
      statistics ts =
        Inr \<lparr>avg = Fin (sum_list ts / real (length ts)),
             median = sort ts ! (length ts div 2),
             min_time = Fin (Min (set ts)),
             max_time = Fin (Max (set ts))\<rparr>)
   \<and> statistics [5, 1, 3] = Inr \<lparr>avg = Fin 3, median = 3, min_time = Fin 1, max_time = Fin 5\<rparr>"
proof
  show "ts \<noteq> [] \<longrightarrow>
      statistics ts =
        Inr \<lparr>avg = Fin (sum_list ts / real (length ts)),
             median = sort ts ! (length ts div 2),
             min_time = Fin (Min (set ts)),
             max_time = Fin (Max (set ts))\<rparr>"
    by (simp add: statistics_nonempty)
  show "statistics [5, 1, 3] = Inr \<lparr>avg = Fin 3, median = 3, min_time = Fin 1, max_time = Fin 5\<rparr>"
    by (simp add: statistics_nonempty)
qed

theorem statistics_of_durations_witness:
  "[4, 2 :: real] \<noteq> [] \<and>
   statistics [4, 2] = Inr \<lparr>avg = Fin 3, median = 4, min_time = Fin 2, max_time = Fin 4\<rparr>"
  using statistics_of_durations [of "[4, 2]"] by simp

text \<open>
  Claim C2, as stated: for an even number of durations the median is the lower of the
  two middle elements of the sorted array, so that 1, 2, 3, 4 have median 2. The code
  reads index \<open>n div 2\<close>, which is the upper of the two: the median of 1, 2, 3, 4 is 3.
\<close>

theorem median_even_counterexample:
  "map_sum id median (statistics [1, 2, 3, 4]) = Inr 3 \<and>
   map_sum id median (statistics [1, 2, 3, 4]) \<noteq> Inr 2"
  by (simp add: statistics_nonempty)

text \<open>
  Claim C2, amended: for every non-empty array of durations of even length the median
  is the upper of the two middle elements of the array sorted in ascending order, that
  is the element at index \<open>n div 2\<close>, which is the larger of the elements at the
  indices \<open>n div 2 - 1\<close> and \<open>n div 2\<close>; the durations 1, 2, 3, 4 have median 3.
\<close>

theorem median_even_upper:
  "(ts \<noteq> [] \<and> even (length ts) \<longrightarrow>
      map_sum id median (statistics ts) = Inr (sort ts ! (length ts div 2)) \<and>
      sort ts ! (length ts div 2) =
        max (sort ts ! (length ts div 2 - 1)) (sort ts ! (length ts div 2)))
   \<and> map_sum id median (statistics [1, 2, 3, 4]) = Inr 3"
proof (intro conjI impI)
  assume a: "ts \<noteq> [] \<and> even (length ts)"
  then show "map_sum id median (statistics ts) = Inr (sort ts ! (length ts div 2))"
    by (simp add: statistics_nonempty)
  have "length ts div 2 < length (sort ts)" using a by simp
  then have "sort ts ! (length ts div 2 - 1) \<le> sort ts ! (length ts div 2)"
    by (intro sorted_nth_mono) simp_all
  then show "sort ts ! (length ts div 2) =
        max (sort ts ! (length ts div 2 - 1)) (sort ts ! (length ts div 2))"
    by simp
next
  show "map_sum id median (statistics [1, 2, 3, 4]) = Inr 3"
    by (simp add: statistics_nonempty)
qed

theorem median_even_upper_witness:
  "[7, 3, 9, 5 :: real] \<noteq> [] \<and> even (length [7, 3, 9, 5 :: real]) \<and>
   map_sum id median (statistics [7, 3, 9, 5]) = Inr 7"
  using median_even_upper [of "[7, 3, 9, 5]"] by simp

text \<open>
  Claim C3, as stated: the statistics of an empty array of durations fail with the
  error EmptyInput. The code has no check for an empty array and no such error: what
  fails is line 208, with the TypeError of a property read on \<^verbatim>\<open>undefined\<close>, the
  same error that reading a property of a missing response gives.
\<close>

theorem statistics_empty_counterexample:
  "statistics [] \<noteq> Inl EmptyInput \<and>
   statistics [] = Inl TypeError \<and>
   get_prop (JsonBody JNull) ''id'' = Inl TypeError"
  by (simp add: statistics_def calculate_statistics_def sort_ascending_def index_def
      get_prop_def)

text \<open>
  Claim C3, amended. On an empty array of durations the code computes the average
  NaN, an \<^verbatim>\<open>undefined\<close> median, the minimum Infinity and the maximum -Infinity, and
  then fails on line 208 with a TypeError, when it formats the median; so no summary
  is returned, but the failure is not an error of its own for empty input: no array of
  durations makes the statistics fail with EmptyInput. The array is empty when the
  benchmark is run with an iteration count of 0, and the run then fails in this way.
\<close>

theorem statistics_empty:
  "calculate_statistics [] = (NaN, None, Infinity, NegInfinity) \<and>
   statistics [] = Inl TypeError \<and>
   (\<forall>ts. statistics ts \<noteq> Inl EmptyInput) \<and>
   benchmark orc S P enc dec key plain (Some 0) w = (Inl TypeError, w)"
proof -
  have c: "calculate_statistics [] = (NaN, None, Infinity, NegInfinity)"
    by (simp add: calculate_statistics_def sort_ascending_def index_def divide_by_length_def
        reduce_sum_def Math_min_def Math_max_def)
  then have s: "statistics [] = Inl TypeError"
    by (simp add: statistics_def)
  have n: "\<forall>ts. statistics ts \<noteq> Inl EmptyInput"
    by (simp add: statistics_def split: prod.splits option.splits)
  have b: "benchmark orc S P enc dec key plain (Some 0) w = (Inl TypeError, w)"
    using s by (simp add: benchmark_def)
  show ?thesis using c s n b by (intro conjI)
qed

section \<open>Numbers as text: decimal digits and parseInt\<close>

lemma digit_char_table: "\<forall>d \<in> set [0..<16]. map_of digit_table (digit_char d) = Some d"
  by code_simp

lemma map_of_digit_char: "d < 16 \<Longrightarrow> map_of digit_table (digit_char d) = Some d"
  using digit_char_table by simp

lemma digit_value_digit_char: "d < r \<Longrightarrow> r \<le> 16 \<Longrightarrow> digit_value r (digit_char d) = Some d"
  by (simp add: digit_value_def map_of_digit_char)

lemma decimal_digit_cases:
  assumes "digit_value 10 c \<noteq> None"
  shows "c \<in> set ''0123456789''"
proof -
  obtain v where v: "map_of digit_table c = Some v" "v < 10"
    using assms by (auto simp: digit_value_def split: option.splits if_splits)
  then have "(c, v) \<in> set digit_table" by (simp add: map_of_SomeD)
  with v(2) show ?thesis by (auto simp: digit_table_def)
qed

lemma decimal_digit_plain:
  assumes "digit_value 10 c \<noteq> None"
  shows "\<not> is_space c" "c \<noteq> CHR ''-''" "c \<noteq> CHR ''+''" "c \<noteq> CHR ''x''" "c \<noteq> CHR ''X''"
  using decimal_digit_cases [OF assms] by (auto simp: is_space_def)

lemma parseInt_digits:
  assumes "ds \<noteq> []" and "\<forall>c \<in> set ds. digit_value 10 c \<noteq> None"
  shows "parseInt ds = Some (int (parse_digits 10 ds))"
proof -
  obtain c r where ds: "ds = c # r" using assms(1) by (cases ds) auto
  have c: "digit_value 10 c \<noteq> None" using assms(2) ds by simp
  have s1: "dropWhile is_space ds = ds" using ds decimal_digit_plain(1) [OF c] by simp
  have nohex: "\<not> (case ds of c # x # _ \<Rightarrow> c = CHR ''0'' \<and> (x = CHR ''x'' \<or> x = CHR ''X'') | _ \<Rightarrow> False)"
  proof (cases r)
    case Nil
    then show ?thesis using ds by simp
  next
    case (Cons x r')
    then have "digit_value 10 x \<noteq> None" using assms(2) ds by simp
    then show ?thesis using ds Cons decimal_digit_plain(4,5) by simp
  qed
  have tw: "takeWhile (\<lambda>c. digit_value 10 c \<noteq> None) ds = ds"
    using assms(2) by (simp add: takeWhile_eq_all_conv)
  show ?thesis
    unfolding parseInt_def Let_def s1
    using nohex tw assms(1) ds decimal_digit_plain(2,3) [OF c]
    by simp
qed

lemma decimal_nonempty: "decimal n \<noteq> []"
  by (subst decimal.simps) simp

lemma decimal_digits: "\<forall>c \<in> set (decimal n). digit_value 10 c \<noteq> None"
proof (induction n rule: decimal.induct)
  case (1 n)
  show ?case
  proof (cases "n < 10")
    case True
    then show ?thesis by (subst decimal.simps) (simp add: digit_value_digit_char)
  next
    case False
    have "n mod 10 < 10" by simp
    then have "digit_value 10 (digit_char (n mod 10)) \<noteq> None"
      by (simp add: digit_value_digit_char)
    then show ?thesis using False "1.IH" by (subst decimal.simps) simp
  qed
qed

lemma parse_digits_snoc:
  "parse_digits r (ds @ [c]) = parse_digits r ds * r + (case digit_value r c of None \<Rightarrow> 0 | Some v \<Rightarrow> v)"
  by (simp add: parse_digits_def)

lemma parse_digits_decimal: "parse_digits 10 (decimal n) = n"
proof (induction n rule: decimal.induct)
  case (1 n)
  show ?case
  proof (cases "n < 10")
    case True
    then show ?thesis
      by (subst decimal.simps) (simp add: parse_digits_def digit_value_digit_char)
  next
    case False
    have "n mod 10 < 10" by simp
    then have d: "digit_value 10 (digit_char (n mod 10)) = Some (n mod 10)"
      by (simp add: digit_value_digit_char)
    have "parse_digits 10 (decimal n) = parse_digits 10 (decimal (n div 10) @ [digit_char (n mod 10)])"
      using False by (subst decimal.simps) simp
    also have "\<dots> = n div 10 * 10 + n mod 10"
      using "1.IH" False d by (simp add: parse_digits_snoc)
    finally show ?thesis by simp
  qed
qed

lemma parseInt_decimal: "parseInt (decimal n) = Some (int n)"
  by (simp add: parseInt_digits decimal_nonempty decimal_digits parse_digits_decimal)

lemma decimal_no_slash: "CHR ''/'' \<notin> set (decimal n)"
proof
  assume "CHR ''/'' \<in> set (decimal n)"
  then have "digit_value 10 CHR ''/'' \<noteq> None" using decimal_digits by blast
  then show False by (simp add: digit_value_def digit_table_def)
qed

lemma string_route_decimal: "string_route (''/strings/'' @ decimal n) = Some (decimal n)"
  by (simp add: string_route_def decimal_nonempty decimal_no_slash)

section \<open>One request at the server\<close>

lemma post_store_reject:
  "\<not> truthy (map_of req_body ''text'') \<Longrightarrow>
   post_store req_body now strings =
     ((400, JsonBody (JObj [(''error'', JStr ''Text field is required'')])), strings)"
  by (simp add: post_store_def)

lemma post_store_accept:
  "map_of req_body ''text'' = Some t \<Longrightarrow> truthy (Some t) \<Longrightarrow>
   post_store req_body now strings =
     ((201, JsonBody (JObj [(''message'', JStr ''String stored successfully''),
                            (''id'', JNum (int (length strings))), (''text'', t)])),
      strings @ [\<lparr>rec_id = length strings, rec_text = t, rec_timestamp = now\<rparr>])"
  by (simp add: post_store_def Let_def)

lemma truthy_None: "\<not> truthy None"
  by (simp add: truthy_def)

lemma post_store_201:
  assumes "post_store req_body now strings = ((201, b), strings')"
  shows "\<exists>t. map_of req_body ''text'' = Some t \<and> truthy (Some t) \<and>
     b = JsonBody (JObj [(''message'', JStr ''String stored successfully''),
                            (''id'', JNum (int (length strings))), (''text'', t)]) \<and>
     strings' = strings @ [\<lparr>rec_id = length strings, rec_text = t, rec_timestamp = now\<rparr>]"
proof (cases "truthy (map_of req_body ''text'')")
  case False
  then show ?thesis using assms by (simp add: post_store_reject)
next
  case True
  then obtain t where t: "map_of req_body ''text'' = Some t"
    by (cases "map_of req_body ''text''") (auto simp: truthy_None)
  then show ?thesis using True assms by (simp add: post_store_accept)
qed

lemma post_store_other:
  assumes "post_store req_body now strings = ((status, b), strings')" and "status \<noteq> 201"
  shows "strings' = strings"
  using assms by (auto simp: post_store_def Let_def split: if_splits)

lemma routes_unchanged:
  assumes "routes method path req_body now strings = ((status, b), strings')" and "status \<noteq> 201"
  shows "strings' = strings"
  using assms by (auto simp: routes_def dest: post_store_other split: if_splits option.splits)

lemma get_string_status: "fst (get_string param strings) \<noteq> 201"
  by (simp add: get_string_def Let_def split: option.splits)

lemma routes_201:
  assumes "routes method path req_body now strings = ((201, b), strings')"
  shows "method = ''POST'' \<and> path = ''/store'' \<and> post_store req_body now strings = ((201, b), strings')"
proof (cases "method = ''POST'' \<and> path = ''/store''")
  case True
  then show ?thesis using assms by (simp add: routes_def)
next
  case False
  have "fst (fst (routes method path req_body now strings)) \<noteq> 201"
    using False get_string_status
    by (auto simp: routes_def get_strings_def split: option.splits)
  then show ?thesis using assms by simp
qed

lemma server_unchanged:
  assumes "server acc date method path data strings = ((status, b), strings')" and "status \<noteq> 201"
  shows "strings' = strings"
  using assms by (auto simp: server_def dest: routes_unchanged split: sum.splits)

lemma express_json_fields:
  assumes "express_json acc data = Inr req_body" and "map_of req_body ''text'' = Some t"
  shows "\<exists>obj. data = Some (JObj obj) \<and> req_body = obj"
  using assms by (auto simp: express_json_def split: option.splits if_splits json.splits)

lemma server_201:
  assumes "server acc date method path data strings = ((201, b), strings')"
  shows "\<exists>obj t. method = ''POST'' \<and> path = ''/store'' \<and> data = Some (JObj obj) \<and> acc (JObj obj) \<and>
     map_of obj ''text'' = Some t \<and> truthy (Some t) \<and>
     b = JsonBody (JObj [(''message'', JStr ''String stored successfully''),
                            (''id'', JNum (int (length strings))), (''text'', t)]) \<and>
     strings' = strings @ [\<lparr>rec_id = length strings, rec_text = t,
                             rec_timestamp = date (length strings)\<rparr>]"
proof (cases "express_json acc data")
  case (Inl r)
  then have "fst r \<noteq> 201"
    by (auto simp: express_json_def split: option.splits if_splits json.splits)
  then show ?thesis using assms Inl by (auto simp: server_def)
next
  case (Inr req_body)
  then have r: "routes method path req_body (date (length strings)) strings = ((201, b), strings')"
    using assms by (simp add: server_def)
  from routes_201 [OF r] have mp: "method = ''POST''" "path = ''/store''"
    and ps: "post_store req_body (date (length strings)) strings = ((201, b), strings')"
    by simp_all
  from post_store_201 [OF ps] obtain t where t: "map_of req_body ''text'' = Some t"
    "truthy (Some t)"
    "b = JsonBody (JObj [(''message'', JStr ''String stored successfully''),
                            (''id'', JNum (int (length strings))), (''text'', t)])"
    "strings' = strings @ [\<lparr>rec_id = length strings, rec_text = t,
                             rec_timestamp = date (length strings)\<rparr>]"
    by blast
  from express_json_fields [OF Inr t(1)] obtain obj where obj: "data = Some (JObj obj)" "req_body = obj"
    by blast
  have "acc (JObj obj)" using Inr obj by (auto simp: express_json_def split: if_splits)
  then show ?thesis using mp t obj by blast
qed

lemma server_store_ok:
  assumes "acc (JObj obj)" and "map_of obj ''text'' = Some t" and "truthy (Some t)"
  shows "server acc date ''POST'' ''/store'' (Some (JObj obj)) strings =
     ((201, JsonBody (JObj [(''message'', JStr ''String stored successfully''),
                            (''id'', JNum (int (length strings))), (''text'', t)])),
      strings @ [\<lparr>rec_id = length strings, rec_text = t,
                             rec_timestamp = date (length strings)\<rparr>])"
  using assms by (simp add: server_def express_json_def routes_def post_store_accept)

lemma index_nth: "i < length xs \<Longrightarrow> index xs i = Some (xs ! i)"
  by (simp add: index_def)

lemma get_string_decimal:
  "i < length strings \<Longrightarrow> get_string (decimal i) strings = (200, JsonBody (stored_json (strings ! i)))"
  by (simp add: get_string_def parseInt_decimal index_nth)

lemma server_get_decimal:
  assumes "i < length strings"
  shows "server acc date ''GET'' (''/strings/'' @ decimal i) None strings =
     ((200, JsonBody (stored_json (strings ! i))), strings)"
  using assms
  by (simp add: server_def express_json_def routes_def string_route_decimal [simplified]
      get_string_decimal)

section \<open>A sequence of requests at the server\<close>

lemma stored_id_201:
  "stored_id (201, JsonBody (JObj [(''message'', JStr ''String stored successfully''),
                            (''id'', JNum i), (''text'', t)])) = Some i"
  by (simp add: stored_id_def)

lemma stored_id_other: "status \<noteq> 201 \<Longrightarrow> stored_id (status, b) = None"
  by (simp add: stored_id_def split: body.splits json.splits)

lemma serve_all_growth:
  assumes "serve_all acc date rs s0 = (resps, final)"
  shows "\<exists>added. final = s0 @ added \<and>
     map rec_id added = [length s0..<length s0 + length added] \<and>
     List.map_filter stored_id resps = map int [length s0..<length s0 + length added]"
  using assms
proof (induction rs arbitrary: s0 resps final)
  case Nil
  then show ?case by (simp add: map_filter_simps)
next
  case (Cons r rs)
  obtain meth path data where r: "r = (meth, path, data)" by (cases r) auto
  obtain status b s1 where step: "server acc date meth path data s0 = ((status, b), s1)"
    by (metis prod.exhaust)
  obtain resps' where rest: "serve_all acc date rs s1 = (resps', final)"
    and resps: "resps = (status, b) # resps'"
    using Cons.prems r step by (auto split: prod.splits)
  from Cons.IH [OF rest] obtain added where added: "final = s1 @ added"
    "map rec_id added = [length s1..<length s1 + length added]"
    "List.map_filter stored_id resps' = map int [length s1..<length s1 + length added]"
    by blast
  show ?case
  proof (cases "status = 201")
    case False
    then have "s1 = s0" using step server_unchanged by blast
    then show ?thesis using added resps False
      by (simp add: map_filter_simps stored_id_other)
  next
    case True
    from server_201 [OF step [unfolded True]] obtain t where
      b: "b = JsonBody (JObj [(''message'', JStr ''String stored successfully''),
                            (''id'', JNum (int (length s0))), (''text'', t)])"
      and s1: "s1 = s0 @ [\<lparr>rec_id = length s0, rec_text = t, rec_timestamp = date (length s0)\<rparr>]"
      by blast
    let ?rec = "\<lparr>rec_id = length s0, rec_text = t, rec_timestamp = date (length s0)\<rparr>"
    have f: "final = s0 @ (?rec # added)" using added(1) s1 by simp
    have up: "[length s0..<length s0 + length (?rec # added)] =
        length s0 # [length s1..<length s1 + length added]"
      using s1 by (simp add: upt_conv_Cons del: upt_Suc)
    have ids: "map rec_id (?rec # added) = [length s0..<length s0 + length (?rec # added)]"
      unfolding up using added(2) by simp
    have "List.map_filter stored_id resps = int (length s0) # List.map_filter stored_id resps'"
      using resps True b by (simp add: map_filter_simps stored_id_201)
    also have "\<dots> = map int [length s0..<length s0 + length (?rec # added)]"
      unfolding up using added(3) by simp
    finally show ?thesis using f ids by blast
  qed
qed

lemma serve_all_append:
  "serve_all acc date (xs @ ys) s =
     (case serve_all acc date xs s of
        (r1, s1) \<Rightarrow> (case serve_all acc date ys s1 of (r2, s2) \<Rightarrow> (r1 @ r2, s2)))"
  by (induction xs arbitrary: s) (auto split: prod.splits)

lemma serve_all_length: "length (fst (serve_all acc date rs s)) = length rs"
proof (induction rs arbitrary: s)
  case Nil
  show ?case by simp
next
  case (Cons r rs)
  obtain meth path data where r: "r = (meth, path, data)" by (cases r) auto
  obtain resp s1 where step: "server acc date meth path data s = (resp, s1)"
    by (metis prod.exhaust)
  obtain resps' final where rest: "serve_all acc date rs s1 = (resps', final)"
    by (metis prod.exhaust)
  have "length resps' = length rs" using Cons.IH [of s1] rest by simp
  then show ?case using r step rest by simp
qed

lemma serve_all_prefix:
  assumes "serve_all acc date rs [] = (resps, final)"
  shows "\<exists>m. snd (serve_all acc date (take k rs) []) = take m final"
proof -
  obtain r1 s1 where a: "serve_all acc date (take k rs) [] = (r1, s1)" by (metis prod.exhaust)
  obtain r2 s2 where b: "serve_all acc date (drop k rs) s1 = (r2, s2)" by (metis prod.exhaust)
  have "serve_all acc date rs [] = (r1 @ r2, s2)"
    using serve_all_append [of acc date "take k rs" "drop k rs" "[]"] a b by simp
  then have "s2 = final" using assms by simp
  with serve_all_growth [OF b] obtain added where "final = s1 @ added" by blast
  then have "s1 = take (length s1) final" by simp
  then show ?thesis using a by (metis snd_conv)
qed

lemma serve_all_retrieve:
  assumes run: "serve_all acc date (rs1 @ (method, path, data) # rs2) [] = (resps, final)"
    and ok: "fst (resps ! length rs1) = 201"
  shows "\<exists>obj t i. data = Some (JObj obj) \<and> map_of obj ''text'' = Some t \<and>
     i = length (snd (serve_all acc date rs1 [])) \<and>
     stored_id (resps ! length rs1) = Some (int i) \<and>
     server acc date ''GET'' (''/strings/'' @ decimal i) None final =
       ((200, JsonBody (JObj [(''id'', JNum (int i)), (''text'', t),
                              (''timestamp'', JStr (date i))])), final)"
proof -
  obtain r1 s1 where a: "serve_all acc date rs1 [] = (r1, s1)" by (metis prod.exhaust)
  obtain status b s2 where step: "server acc date method path data s1 = ((status, b), s2)"
    by (metis prod.exhaust)
  obtain r2 s3 where c: "serve_all acc date rs2 s2 = (r2, s3)" by (metis prod.exhaust)
  have all: "serve_all acc date (rs1 @ (method, path, data) # rs2) [] = (r1 @ (status, b) # r2, s3)"
    by (simp add: serve_all_append a step c)
  then have resps: "resps = r1 @ (status, b) # r2" and final: "final = s3" using run by simp_all
  have "length r1 = length rs1" using serve_all_length [of acc date rs1 "[]"] a by simp
  then have nth: "resps ! length rs1 = (status, b)" using resps by (simp add: nth_append)
  then have st: "status = 201" using ok by simp
  from server_201 [OF step [unfolded st]] obtain obj t where
    d: "data = Some (JObj obj)" "map_of obj ''text'' = Some t"
    and b: "b = JsonBody (JObj [(''message'', JStr ''String stored successfully''),
                            (''id'', JNum (int (length s1))), (''text'', t)])"
    and s2: "s2 = s1 @ [\<lparr>rec_id = length s1, rec_text = t, rec_timestamp = date (length s1)\<rparr>]"
    by blast
  from serve_all_growth [OF c] obtain added where "s3 = s2 @ added" by blast
  then have f: "final = s1 @ \<lparr>rec_id = length s1, rec_text = t, rec_timestamp = date (length s1)\<rparr> # added"
    using final s2 by simp
  then have lt: "length s1 < length final"
    and rec: "final ! length s1 = \<lparr>rec_id = length s1, rec_text = t, rec_timestamp = date (length s1)\<rparr>"
    by simp_all
  have "server acc date ''GET'' (''/strings/'' @ decimal (length s1)) None final =
       ((200, JsonBody (stored_json (final ! length s1))), final)"
    using lt by (rule server_get_decimal)
  then have g: "server acc date ''GET'' (''/strings/'' @ decimal (length s1)) None final =
       ((200, JsonBody (JObj [(''id'', JNum (int (length s1))), (''text'', t),
                              (''timestamp'', JStr (date (length s1)))])), final)"
    by (simp add: rec stored_json_def)
  have "stored_id (resps ! length rs1) = Some (int (length s1))"
    using nth st b by (simp add: stored_id_201)
  then show ?thesis using d g a by simp
qed


text \<open>
  Claim C7. Let the server, starting with an empty array, serve any sequence of
  requests. Then the records it holds have the identifiers 0, 1, 2, ... in order; the
  identifiers returned by the successful stores (status 201) are, in the order of the
  requests, the same consecutive numbers from 0 on, so none is reused and none is
  skipped; the array after any initial part of the requests is an initial part of the
  array at the end, so no record is ever changed or removed; and for every successful
  store, retrieving the identifier it returned gives the exact text that was sent.
\<close>

theorem store_ids_consecutive:
  assumes "serve_all acc date rs [] = (resps, final)"
  shows "map rec_id final = [0..<length final] \<and>
     List.map_filter stored_id resps = map int [0..<length final] \<and>
     (\<forall>k. \<exists>m. snd (serve_all acc date (take k rs) []) = take m final) \<and>
     (\<forall>rs1 method path data rs2.
           rs = rs1 @ (method, path, data) # rs2 \<and> fst (resps ! length rs1) = 201 \<longrightarrow>
           (\<exists>obj t i. data = Some (JObj obj) \<and> map_of obj ''text'' = Some t \<and>
              i = length (snd (serve_all acc date rs1 [])) \<and>
              stored_id (resps ! length rs1) = Some (int i) \<and>
              server acc date ''GET'' (''/strings/'' @ decimal i) None final =
                ((200, JsonBody (JObj [(''id'', JNum (int i)), (''text'', t),
                                       (''timestamp'', JStr (date i))])), final)))"
proof -
  from serve_all_growth [OF assms] obtain added where a: "final = [] @ added"
    "map rec_id added = [length ([]::stored list)..<length ([]::stored list) + length added]"
    "List.map_filter stored_id resps =
       map int [length ([]::stored list)..<length ([]::stored list) + length added]"
    by blast
  have p1: "map rec_id final = [0..<length final]" using a by simp
  have p2: "List.map_filter stored_id resps = map int [0..<length final]" using a by simp
  have p3: "\<forall>k. \<exists>m. snd (serve_all acc date (take k rs) []) = take m final"
    using serve_all_prefix [OF assms] by blast
  have p4: "\<forall>rs1 method path data rs2.
           rs = rs1 @ (method, path, data) # rs2 \<and> fst (resps ! length rs1) = 201 \<longrightarrow>
           (\<exists>obj t i. data = Some (JObj obj) \<and> map_of obj ''text'' = Some t \<and>
              i = length (snd (serve_all acc date rs1 [])) \<and>
              stored_id (resps ! length rs1) = Some (int i) \<and>
              server acc date ''GET'' (''/strings/'' @ decimal i) None final =
                ((200, JsonBody (JObj [(''id'', JNum (int i)), (''text'', t),
                                       (''timestamp'', JStr (date i))])), final))"
    using assms serve_all_retrieve by blast
  show ?thesis using p1 p2 p3 p4 by blast
qed

lemma example_run:
  "serve_all (\<lambda>d. True) (\<lambda>k. ''d'') example_requests [] = (example_responses, example_final)"
  by code_simp

theorem store_ids_consecutive_witness:
  "serve_all (\<lambda>d. True) (\<lambda>k. ''d'') example_requests [] = (example_responses, example_final) \<and>
   map rec_id example_final = [0, 1] \<and>
   List.map_filter stored_id example_responses = [0, 1] \<and>
   server (\<lambda>d. True) (\<lambda>k. ''d'') ''GET'' ''/strings/1'' None example_final =
     ((200, JsonBody (JObj [(''id'', JNum 1), (''text'', JStr ''b''),
                            (''timestamp'', JStr ''d'')])), example_final)"
proof -
  note t = store_ids_consecutive [OF example_run]
  have ids: "map rec_id example_final = [0..<length example_final]"
    and ret: "List.map_filter stored_id example_responses = map int [0..<length example_final]"
    and get: "\<forall>rs1 method path data rs2.
           example_requests = rs1 @ (method, path, data) # rs2 \<and>
           fst (example_responses ! length rs1) = 201 \<longrightarrow>
           (\<exists>obj t i. data = Some (JObj obj) \<and> map_of obj ''text'' = Some t \<and>
              i = length (snd (serve_all (\<lambda>d. True) (\<lambda>k. ''d'') rs1 [])) \<and>
              stored_id (example_responses ! length rs1) = Some (int i) \<and>
              server (\<lambda>d. True) (\<lambda>k. ''d'') ''GET'' (''/strings/'' @ decimal i) None example_final =
                ((200, JsonBody (JObj [(''id'', JNum (int i)), (''text'', t),
                                       (''timestamp'', JStr ''d'')])), example_final))"
    using t [THEN conjunct1] t [THEN conjunct2, THEN conjunct1]
      t [THEN conjunct2, THEN conjunct2, THEN conjunct2]
    by - assumption+
  have split: "example_requests = take 3 example_requests @
      (''POST'', ''/store'', Some (JObj [(''text'', JStr ''b'')])) # []"
    by (simp add: example_requests_def)
  have ok: "fst (example_responses ! length (take 3 example_requests)) = 201"
    by (simp add: example_requests_def example_responses_def)
  have before: "length (snd (serve_all (\<lambda>d. True) (\<lambda>k. ''d'') (take 3 example_requests) [])) = 1"
    by code_simp
  have dec: "decimal 1 = ''1''"
    by code_simp
  from get [rule_format, OF conjI [OF split ok]] obtain obj t i where
    d: "Some (JObj [(''text'', JStr ''b'')]) = Some (JObj obj)" "map_of obj ''text'' = Some t"
    and i: "i = length (snd (serve_all (\<lambda>d. True) (\<lambda>k. ''d'') (take 3 example_requests) []))"
    and g: "server (\<lambda>d. True) (\<lambda>k. ''d'') ''GET'' (''/strings/'' @ decimal i) None example_final =
                ((200, JsonBody (JObj [(''id'', JNum (int i)), (''text'', t),
                                       (''timestamp'', JStr ''d'')])), example_final)"
    by blast
  have "i = 1" using i before by simp
  moreover have "t = JStr ''b''" using d by auto
  ultimately have g': "server (\<lambda>d. True) (\<lambda>k. ''d'') ''GET'' ''/strings/1'' None example_final =
     ((200, JsonBody (JObj [(''id'', JNum 1), (''text'', JStr ''b''),
                            (''timestamp'', JStr ''d'')])), example_final)"
    using g dec by simp
  have len: "length example_final = 2" by (simp add: example_final_def)
  show ?thesis
    using example_run ids ret g' len by (simp add: upt_conv_Cons)
qed

text \<open>
  Claim C10. A store request whose field \<^verbatim>\<open>text\<close> is missing or is the empty string
  is answered with status 400 and the error body, and the array is unchanged: no
  record is created and no identifier is used up, so that the requests that follow
  are served exactly as if the request had not been made. The same holds for a store
  request without a body.
\<close>

theorem empty_text_rejected:
  assumes "map_of obj ''text'' = None \<or> map_of obj ''text'' = Some (JStr [])"
  shows "post_store obj now strings =
       ((400, JsonBody (JObj [(''error'', JStr ''Text field is required'')])), strings) \<and>
     snd (server acc date ''POST'' ''/store'' (Some (JObj obj)) strings) = strings \<and>
     fst (fst (server acc date ''POST'' ''/store'' (Some (JObj obj)) strings)) \<noteq> 201 \<and>
     (acc (JObj obj) \<longrightarrow>
        server acc date ''POST'' ''/store'' (Some (JObj obj)) strings =
          ((400, JsonBody (JObj [(''error'', JStr ''Text field is required'')])), strings)) \<and>
     server acc date ''POST'' ''/store'' None strings =
       ((400, JsonBody (JObj [(''error'', JStr ''Text field is required'')])), strings) \<and>
     snd (serve_all acc date ((''POST'', ''/store'', Some (JObj obj)) # rest) strings) =
       snd (serve_all acc date rest strings)"
proof -
  have falsy: "\<not> truthy (map_of obj ''text'')"
    using assms by (auto simp: truthy_def)
  have p1: "post_store obj now strings =
       ((400, JsonBody (JObj [(''error'', JStr ''Text field is required'')])), strings)" for now
    using falsy by (rule post_store_reject)
  have p4: "acc (JObj obj) \<longrightarrow>
        server acc date ''POST'' ''/store'' (Some (JObj obj)) strings =
          ((400, JsonBody (JObj [(''error'', JStr ''Text field is required'')])), strings)"
    by (simp add: server_def express_json_def routes_def p1)
  have p23: "snd (server acc date ''POST'' ''/store'' (Some (JObj obj)) strings) = strings \<and>
     fst (fst (server acc date ''POST'' ''/store'' (Some (JObj obj)) strings)) \<noteq> 201"
    by (simp add: server_def express_json_def routes_def p1)
  have p5: "server acc date ''POST'' ''/store'' None strings =
       ((400, JsonBody (JObj [(''error'', JStr ''Text field is required'')])), strings)"
    by (simp add: server_def express_json_def routes_def post_store_reject truthy_None)
  have p6: "snd (serve_all acc date ((''POST'', ''/store'', Some (JObj obj)) # rest) strings) =
       snd (serve_all acc date rest strings)"
  proof -
    obtain r where "server acc date ''POST'' ''/store'' (Some (JObj obj)) strings = (r, strings)"
      using p23 by (metis prod.collapse)
    then show ?thesis by (simp split: prod.splits)
  qed
  show ?thesis using p1 p23 p4 p5 p6 by blast
qed

theorem empty_text_rejected_witness:
  "map_of [(''text'', JStr [])] ''text'' = Some (JStr []) \<and>
   server (\<lambda>d. True) (\<lambda>k. ''d'') ''POST'' ''/store'' (Some (JObj [(''text'', JStr [])])) example_final =
     ((400, JsonBody (JObj [(''error'', JStr ''Text field is required'')])), example_final) \<and>
   snd (serve_all (\<lambda>d. True) (\<lambda>k. ''d'')
          [(''POST'', ''/store'', Some (JObj [(''text'', JStr [])])),
           (''POST'', ''/store'', Some (JObj [(''text'', JStr ''c'')]))] example_final) =
     snd (serve_all (\<lambda>d. True) (\<lambda>k. ''d'')
          [(''POST'', ''/store'', Some (JObj [(''text'', JStr ''c'')]))] example_final)"
proof -
  have h: "map_of [(''text'', JStr [])] ''text'' = None \<or>
      map_of [(''text'', JStr [])] ''text'' = Some (JStr [])"
    by simp
  note t = empty_text_rejected [where obj = "[(''text'', JStr [])]" and acc = "\<lambda>d. True"
      and date = "\<lambda>k. ''d''" and strings = example_final and now = "''d''"
      and rest = "[(''POST'', ''/store'', Some (JObj [(''text'', JStr ''c'')]))]", OF h]
  show ?thesis using t by (simp del: serve_all.simps)
qed

section \<open>The hex encoding is inverted by its decoding\<close>

lemma byte_digits: "word_of_nat (16 * (unat b div 16) + unat b mod 16) = b" for b :: byte
  by simp

lemma unat_byte_div: "unat b div 16 < 16" for b :: byte
proof -
  have "unat b < 256" using unsigned_less [of b] by simp
  then show ?thesis by simp
qed

lemma from_hex_toString_hex: "from_hex (toString_hex buf) = buf"
proof (induction buf)
  case Nil
  show ?case by (simp add: toString_hex_def)
next
  case (Cons b buf)
  have h: "digit_value 16 (digit_char (unat b div 16)) = Some (unat b div 16)"
    by (simp add: digit_value_digit_char unat_byte_div)
  have l: "digit_value 16 (digit_char (unat b mod 16)) = Some (unat b mod 16)"
    by (simp add: digit_value_digit_char)
  have "toString_hex (b # buf) =
      digit_char (unat b div 16) # digit_char (unat b mod 16) # toString_hex buf"
    by (simp add: toString_hex_def)
  then show ?case using h l Cons.IH by (simp add: byte_digits del: of_nat_add of_nat_mult)
qed

lemma length_toString_hex: "length (toString_hex buf) = 2 * length buf"
  by (induction buf) (simp_all add: toString_hex_def)

lemma toString_hex_Nil: "toString_hex [] = []"
  by (simp add: toString_hex_def)

lemma length_randomBytes: "length (randomBytes rnd k n) = n"
  by (simp add: randomBytes_def)

section \<open>The symmetric ciphers\<close>

lemma encrypt_with_result:
  assumes "length key = 32" and "valid_iv_length alg n"
  shows "encrypt_with alg n tlen L rnd txt key k =
     (Inr \<lparr>encrypted = toString_hex (stream_encrypt L alg key (randomBytes rnd k n) (utf8_encode L txt)),
           iv = toString_hex (randomBytes rnd k n),
           authTag = toString_hex (compute_tag L alg key (randomBytes rnd k n)
                       (stream_encrypt L alg key (randomBytes rnd k n) (utf8_encode L txt)))\<rparr>,
      Suc k)"
  using assms
  by (simp add: encrypt_with_def createCipheriv_def length_randomBytes cipher_update_def
      cipher_final_def getAuthTag_def toString_hex_Nil Let_def)

lemma decrypt_with_result:
  assumes "length key = 32" and "valid_iv_length alg (length nonce)"
    and "tlen = None \<or> tlen = Some (length tag)" and "length tag = 16"
  shows "decrypt_with alg tlen L
       \<lparr>encrypted = toString_hex ct, iv = toString_hex nonce, authTag = toString_hex tag\<rparr> key =
     (if compute_tag L alg key nonce ct = tag \<or>
         take 16 (compute_tag L alg key nonce ct) = tag
      then Inr (utf8_decode L (stream_decrypt L alg key nonce ct))
      else Inl AuthenticationFailure)"
  using assms
  by (auto simp: decrypt_with_def createCipheriv_def from_hex_toString_hex setAuthTag_def
      valid_tag_length_def decipher_update_def decipher_final_def Let_def)

lemma symmetric_roundtrip:
  assumes "length key = 32" and "valid_iv_length alg n" and "tlen = None \<or> tlen = Some 16"
    and "stream_correct L" and "tag_16_bytes L" and "utf8_roundtrip L txt"
  shows "\<exists>env. encrypt_with alg n tlen L rnd txt key k = (Inr env, Suc k) \<and>
     decrypt_with alg tlen L env key = Inr txt"
proof -
  let ?nonce = "randomBytes rnd k n"
  let ?ct = "stream_encrypt L alg key ?nonce (utf8_encode L txt)"
  let ?tag = "compute_tag L alg key ?nonce ?ct"
  let ?env = "\<lparr>encrypted = toString_hex ?ct, iv = toString_hex ?nonce, authTag = toString_hex ?tag\<rparr>"
  have e: "encrypt_with alg n tlen L rnd txt key k = (Inr ?env, Suc k)"
    using assms(1,2) by (rule encrypt_with_result)
  have len: "length ?tag = 16" using assms(5) by (simp add: tag_16_bytes_def)
  have "decrypt_with alg tlen L ?env key = Inr (utf8_decode L (stream_decrypt L alg key ?nonce ?ct))"
    using decrypt_with_result [of key alg ?nonce tlen ?tag L ?ct] assms(1,2,3) len
    by (simp add: length_randomBytes)
  also have "\<dots> = Inr txt"
    using assms(4,6) by (simp add: stream_correct_def utf8_roundtrip_def)
  finally show ?thesis using e by blast
qed

lemma tampered_tag_rejected:
  assumes "length key = 32" and "valid_iv_length alg n" and "tlen = None \<or> tlen = Some 16"
    and "tag_16_bytes L"
    and enc: "encrypt_with alg n tlen L rnd txt key k = (Inr env, k')"
    and i: "i < length (from_hex (authTag env))" and b: "b \<noteq> from_hex (authTag env) ! i"
  shows "decrypt_with alg tlen L (env\<lparr>authTag := toString_hex ((from_hex (authTag env))[i := b])\<rparr>) key =
     Inl AuthenticationFailure"
proof -
  let ?nonce = "randomBytes rnd k n"
  let ?ct = "stream_encrypt L alg key ?nonce (utf8_encode L txt)"
  let ?tag = "compute_tag L alg key ?nonce ?ct"
  have env: "env = \<lparr>encrypted = toString_hex ?ct, iv = toString_hex ?nonce, authTag = toString_hex ?tag\<rparr>"
    using enc encrypt_with_result [OF assms(1,2), of tlen L rnd "txt" k] by simp
  have len: "length ?tag = 16" using assms(4) by (simp add: tag_16_bytes_def)
  have tag: "from_hex (authTag env) = ?tag" by (simp add: env from_hex_toString_hex)
  let ?tag' = "list_update ?tag i b"
  have ne: "?tag' \<noteq> ?tag"
    using i b tag by (metis nth_list_update_eq)
  have "decrypt_with alg tlen L
       \<lparr>encrypted = toString_hex ?ct, iv = toString_hex ?nonce, authTag = toString_hex ?tag'\<rparr> key =
     Inl AuthenticationFailure"
    using decrypt_with_result [of key alg ?nonce tlen ?tag' L ?ct] assms(1,2,3) len ne
    by (auto simp: length_randomBytes)
  then show ?thesis by (simp add: env from_hex_toString_hex)
qed

lemma tampered_ciphertext_rejected:
  assumes "length key = 32" and "valid_iv_length alg n" and "tlen = None \<or> tlen = Some 16"
    and "tag_16_bytes L"
    and enc: "encrypt_with alg n tlen L rnd txt key k = (Inr env, k')"
    and diff: "compute_tag L alg key (from_hex (iv env)) ((from_hex (encrypted env))[i := b]) \<noteq>
           compute_tag L alg key (from_hex (iv env)) (from_hex (encrypted env))"
  shows "decrypt_with alg tlen L (env\<lparr>encrypted := toString_hex ((from_hex (encrypted env))[i := b])\<rparr>) key =
     Inl AuthenticationFailure"
proof -
  let ?nonce = "randomBytes rnd k n"
  let ?ct = "stream_encrypt L alg key ?nonce (utf8_encode L txt)"
  let ?tag = "compute_tag L alg key ?nonce ?ct"
  have env: "env = \<lparr>encrypted = toString_hex ?ct, iv = toString_hex ?nonce, authTag = toString_hex ?tag\<rparr>"
    using enc encrypt_with_result [OF assms(1,2), of tlen L rnd "txt" k] by simp
  have len: "length ?tag = 16" using assms(4) by (simp add: tag_16_bytes_def)
  let ?ct' = "list_update ?ct i b"
  have len': "length (compute_tag L alg key ?nonce ?ct') = 16"
    using assms(4) by (simp add: tag_16_bytes_def)
  have ne: "compute_tag L alg key ?nonce ?ct' \<noteq> ?tag"
    using diff by (simp add: env from_hex_toString_hex)
  have "decrypt_with alg tlen L
       \<lparr>encrypted = toString_hex ?ct', iv = toString_hex ?nonce, authTag = toString_hex ?tag\<rparr> key =
     Inl AuthenticationFailure"
    using decrypt_with_result [of key alg ?nonce tlen ?tag L ?ct'] assms(1,2,3) len len' ne
    by (auto simp: length_randomBytes)
  then show ?thesis by (simp add: env from_hex_toString_hex)
qed

lemma decrypt_only_if_verified:
  assumes "decrypt_with alg tlen L env key = Inr q"
  shows "take (length (from_hex (authTag env)))
           (compute_tag L alg key (from_hex (iv env)) (from_hex (encrypted env))) =
         from_hex (authTag env)"
  using assms
  by (auto simp: decrypt_with_def createCipheriv_def setAuthTag_def decipher_final_def Let_def
      split: if_splits sum.splits)

section \<open>The asymmetric scheme: chunks and reassembly\<close>

lemma ceil_step:
  assumes "i < (len::nat)"
  shows "(len - i + 189) div 190 = Suc ((len - (i + 190) + 189) div 190)"
proof (cases "len - i < 190")
  case True
  then have a: "len - (i + 190) = 0" by simp
  have "190 * 1 \<le> len - i + 189" "len - i + 189 < 190 * Suc 1" using True assms by simp_all
  then have "(len - i + 189) div 190 = 1"
    by (rule div_nat_eqI)
  then show ?thesis using a by simp
next
  case False
  then have e: "len - i + 189 = (len - (i + 190) + 189) + 190" by simp
  have "((len - (i + 190) + 189) + 190) div 190 = Suc ((len - (i + 190) + 189) div 190)"
    by (simp only: div_add_self2)
  then show ?thesis by (simp only: e)
qed

lemma chunk_count_step:
  assumes "i < len"
  shows "chunk_count (len - i) = Suc (chunk_count (len - (i + maxChunkSize)))"
  using ceil_step [OF assms] by (simp add: chunk_count_def maxChunkSize_def)

lemma chunk_count_done: "\<not> i < len \<Longrightarrow> chunk_count (len - i) = 0"
  by (simp add: chunk_count_def maxChunkSize_def)

lemma chunk_count_ceiling: "chunk_count len = nat \<lceil>real len / real maxChunkSize\<rceil>"
proof -
  define q where "q = (len + 189) div 190"
  define r where "r = (len + 189) mod 190"
  have eq: "len + 189 = 190 * q + r" and r: "r < 190"
    by (simp_all add: q_def r_def)
  have up: "len \<le> 190 * q" using eq r by linarith
  have lo: "190 * q < len + 190" using eq by linarith
  have "real len \<le> real (190 * q)" using up by (simp only: of_nat_le_iff)
  then have a: "real len / 190 \<le> of_int (int q)" by simp
  have "real (190 * q) < real (len + 190)" using lo by (simp only: of_nat_less_iff)
  then have b: "of_int (int q) - 1 < real len / 190" by simp
  have "\<lceil>real len / 190\<rceil> = int q" using b a by (rule ceiling_unique)
  then show ?thesis by (simp add: chunk_count_def maxChunkSize_def q_def)
qed

lemma length_slice_le: "length (slice_buf buf a (a + n)) \<le> n"
  by (simp add: slice_buf_def)


lemma encryptRSA_loop_result:
  assumes "256 \<le> modulus_length L pub div 8"
  shows "encryptRSA_loop L rnd pub buf i k chunks =
     (Inr (chunks @ map (encrypted_chunk L rnd pub buf i k) [0..<chunk_count (length buf - i)]),
      k + chunk_count (length buf - i))"
  using assms
proof (induction L rnd pub buf i k chunks rule: encryptRSA_loop.induct)
  case (1 L rnd pub buf i k chunks)
  show ?case
  proof (cases "i < length buf")
    case False
    then show ?thesis
      by (subst encryptRSA_loop.simps) (simp add: chunk_count_def maxChunkSize_def)
  next
    case True
    let ?chunk = "slice_buf buf i (i + maxChunkSize)"
    let ?enc = "oaep_encrypt L pub (randomBytes rnd k 32) ?chunk"
    let ?m = "chunk_count (length buf - (i + maxChunkSize))"
    have "length ?chunk \<le> 190"
      using length_slice_le [of buf i maxChunkSize] by (simp add: maxChunkSize_def)
    then have "\<not> modulus_length L pub div 8 < length ?chunk + 66"
      using "1.prems" by linarith
    then have fits: "publicEncrypt L pub (randomBytes rnd k 32) ?chunk = Inr ?enc"
      by (simp add: publicEncrypt_def)
    have IH: "encryptRSA_loop L rnd pub buf (i + maxChunkSize) (Suc k) (chunks @ [toString_hex ?enc]) =
        (Inr ((chunks @ [toString_hex ?enc]) @
              map (encrypted_chunk L rnd pub buf (i + maxChunkSize) (Suc k)) [0..<?m]),
         Suc k + ?m)"
      using "1.IH" [OF True refl fits "1.prems"] .
    have n: "chunk_count (length buf - i) = Suc ?m"
      using True by (rule chunk_count_step)
    have shift: "encrypted_chunk L rnd pub buf (i + maxChunkSize) (Suc k) j =
        encrypted_chunk L rnd pub buf i k (Suc j)" for j
      by (simp add: encrypted_chunk_def add.assoc add.left_commute)
    have first: "encrypted_chunk L rnd pub buf i k 0 = toString_hex ?enc"
      by (simp add: encrypted_chunk_def)
    have m: "map (encrypted_chunk L rnd pub buf i k) [0..<Suc ?m] =
        toString_hex ?enc # map (encrypted_chunk L rnd pub buf (i + maxChunkSize) (Suc k)) [0..<?m]"
      by (simp add: map_upt_Suc first shift del: upt_Suc)
    have "encryptRSA_loop L rnd pub buf i k chunks =
        encryptRSA_loop L rnd pub buf (i + maxChunkSize) (Suc k) (chunks @ [toString_hex ?enc])"
      using True fits by (subst encryptRSA_loop.simps) simp
    also note IH
    finally show ?thesis by (simp only: n m) simp
  qed
qed

lemma decryptRSA_loop_map:
  assumes "\<forall>j \<in> set js. privateDecrypt L priv (from_hex (f j)) = Inr (g j)"
  shows "decryptRSA_loop L priv (map f js) acc = Inr (acc @ map g js)"
  using assms by (induction js arbitrary: acc) simp_all

lemma concat_slices:
  "concat (map (\<lambda>j. slice_buf buf (c * j) (c * j + c)) [0..<n]) = take (c * n) buf"
proof (induction n)
  case 0
  show ?case by simp
next
  case (Suc n)
  have "take (c * n + c) buf = take (c * n) buf @ take c (drop (c * n) buf)"
    by (rule take_add)
  then have "take (c * Suc n) buf = take (c * n) buf @ take c (drop (c * n) buf)"
    by (simp only: mult_Suc_right add.commute)
  then show ?case using Suc.IH by (simp add: slice_buf_def)
qed

lemma chunk_count_covers: "len \<le> maxChunkSize * chunk_count len"
proof -
  define q where "q = (len + 189) div 190"
  define r where "r = (len + 189) mod 190"
  have eq: "len + 189 = 190 * q + r" and r: "r < 190"
    by (simp_all add: q_def r_def)
  have "len \<le> 190 * q" using eq r by linarith
  then show ?thesis by (simp add: chunk_count_def maxChunkSize_def q_def)
qed

lemma encryptRSA_result:
  assumes "256 \<le> modulus_length L pub div 8"
  shows "encryptRSA L rnd plain pub k =
     (Inr \<lparr>encrypted_chunks =
             map (encrypted_chunk L rnd pub (utf8_encode L plain) 0 k)
               [0..<chunk_count (length (utf8_encode L plain))],
           chunkCount = chunk_count (length (utf8_encode L plain))\<rparr>,
      k + chunk_count (length (utf8_encode L plain)))"
  using encryptRSA_loop_result [OF assms, of rnd "utf8_encode L plain" 0 k "[]"]
  by (simp add: encryptRSA_def)

lemma fullBuffer_chunks:
  assumes "modulus_length L pub div 8 = 256" and "oaep_correct L pub priv"
  shows "fullBuffer L
       \<lparr>encrypted_chunks = map (encrypted_chunk L rnd pub buf 0 k) [0..<chunk_count (length buf)],
        chunkCount = n\<rparr> priv = Inr buf"
proof -
  let ?piece = "\<lambda>j. slice_buf buf (maxChunkSize * j) (maxChunkSize * j + maxChunkSize)"
  have dec: "privateDecrypt L priv (from_hex (encrypted_chunk L rnd pub buf 0 k j)) = Inr (?piece j)" for j
  proof -
    have "length (?piece j) \<le> 190"
      using length_slice_le [of buf "maxChunkSize * j" maxChunkSize] by (simp add: maxChunkSize_def)
    then have "length (?piece j) + 66 \<le> modulus_length L pub div 8" using assms(1) by linarith
    then have "oaep_decrypt L priv (oaep_encrypt L pub (randomBytes rnd (k + j) 32) (?piece j)) =
        Some (?piece j)"
      using assms(2) by (simp add: oaep_correct_def)
    then show ?thesis
      by (simp add: encrypted_chunk_def from_hex_toString_hex privateDecrypt_def)
  qed
  have "decryptRSA_loop L priv (map (encrypted_chunk L rnd pub buf 0 k) [0..<chunk_count (length buf)]) [] =
      Inr ([] @ map ?piece [0..<chunk_count (length buf)])"
    by (rule decryptRSA_loop_map) (simp add: dec)
  moreover have "concat (map ?piece [0..<chunk_count (length buf)]) = buf"
    using chunk_count_covers [of "length buf"] by (simp add: concat_slices)
  ultimately show ?thesis by (simp add: fullBuffer_def)
qed

lemma asymmetric_roundtrip:
  assumes "modulus_length L pub div 8 = 256" and "oaep_correct L pub priv"
    and "utf8_roundtrip L plain"
  shows "\<exists>env k'. encryptRSA L rnd plain pub k = (Inr env, k') \<and> decryptRSA L env priv = Inr plain"
proof -
  have m: "256 \<le> modulus_length L pub div 8" using assms(1) by simp
  have "decryptRSA L
      \<lparr>encrypted_chunks = map (encrypted_chunk L rnd pub (utf8_encode L plain) 0 k)
               [0..<chunk_count (length (utf8_encode L plain))],
           chunkCount = chunk_count (length (utf8_encode L plain))\<rparr> priv = Inr plain"
    using fullBuffer_chunks [OF assms(1,2)] assms(3)
    by (simp add: decryptRSA_def utf8_roundtrip_def)
  then show ?thesis using encryptRSA_result [OF m] by blast
qed

section \<open>The stand-in library meets the assumptions\<close>

lemma toy_stream_correct: "stream_correct toy_crypto"
  by (simp add: stream_correct_def toy_crypto_def comp_def xor.assoc)

lemma toy_tag_16_bytes: "tag_16_bytes toy_crypto"
  by (auto simp: tag_16_bytes_def toy_crypto_def min_def)

lemma toy_oaep_correct: "oaep_correct toy_crypto pub priv"
  by (simp add: oaep_correct_def toy_crypto_def)

lemma toy_char_byte: "char_of (unat (word_of_nat (of_char c) :: byte)) = c"
proof -
  have "of_char c < (256 :: nat)" by (rule nat_of_char_less_256)
  then have "unat (word_of_nat (of_char c) :: byte) = of_char c"
    by (simp add: unat_of_nat)
  then show ?thesis by simp
qed

lemma toy_utf8_roundtrip: "utf8_roundtrip toy_crypto s"
  by (simp add: utf8_roundtrip_def toy_crypto_def comp_def toy_char_byte map_idI)

lemma length_toy_key: "length toy_key = 32"
  by (simp add: toy_key_def)

lemma toy_encryptAES:
  "encryptAES toy_crypto toy_random ''hi'' toy_key 0 = (Inr toy_envelope_aes, 1)"
  by code_simp

lemma toy_encryptChaCha20: 
  "encryptChaCha20 toy_crypto toy_random ''hi'' toy_key 0 = (Inr toy_envelope_chacha, 1)"
  by code_simp


section \<open>The claims about the cipher functions\<close>

text \<open>
  Claim C1. For each of the three schemes, decrypting what encryption produced gives
  back the plaintext, for every plaintext (of any length, the empty one included) that
  UTF-8 decoding recovers from its encoding, with a 32-byte key for the two symmetric
  schemes and a 2048-bit key pair for the asymmetric one. The library's ciphers are
  assumed to invert themselves; what is proved is that the client's code around them
  (nonce, hex encoding, tag handling, chunking and reassembly) preserves the law.
\<close>

theorem encrypt_decrypt_roundtrip:
  assumes "length key = 32" and "stream_correct L" and "tag_16_bytes L"
    and "modulus_length L pub = 2048" and "oaep_correct L pub priv"
    and "utf8_roundtrip L plain"
  shows "(\<exists>env. encryptAES L rnd plain key k = (Inr env, Suc k) \<and>
            decryptAES L env key = Inr plain) \<and>
     (\<exists>env. encryptChaCha20 L rnd plain key k = (Inr env, Suc k) \<and>
            decryptChaCha20 L env key = Inr plain) \<and>
     (\<exists>env k'. encryptRSA L rnd plain pub k = (Inr env, k') \<and>
            decryptRSA L env priv = Inr plain)"
proof -
  have aes: "\<exists>env. encryptAES L rnd plain key k = (Inr env, Suc k) \<and>
            decryptAES L env key = Inr plain"
    unfolding encryptAES_def decryptAES_def
    using assms(1,2,3,6) by (intro symmetric_roundtrip) (simp_all add: valid_iv_length_def)
  have chacha: "\<exists>env. encryptChaCha20 L rnd plain key k = (Inr env, Suc k) \<and>
            decryptChaCha20 L env key = Inr plain"
    unfolding encryptChaCha20_def decryptChaCha20_def
    using assms(1,2,3,6) by (intro symmetric_roundtrip) (simp_all add: valid_iv_length_def)
  have "modulus_length L pub div 8 = 256" using assms(4) by simp
  then have rsa: "\<exists>env k'. encryptRSA L rnd plain pub k = (Inr env, k') \<and>
            decryptRSA L env priv = Inr plain"
    using assms(5,6) by (rule asymmetric_roundtrip)
  show ?thesis using aes chacha rsa by blast
qed

theorem encrypt_decrypt_roundtrip_witness:
  "length toy_key = 32 \<and>
   (\<exists>env. encryptAES toy_crypto toy_random [] toy_key 0 = (Inr env, Suc 0) \<and>
          decryptAES toy_crypto env toy_key = Inr []) \<and>
   (\<exists>env. encryptChaCha20 toy_crypto toy_random ''round trip'' toy_key 5 = (Inr env, Suc 5) \<and>
          decryptChaCha20 toy_crypto env toy_key = Inr ''round trip'') \<and>
   (\<exists>env k'. encryptRSA toy_crypto toy_random (replicate 500 CHR ''a'') 2048 3 = (Inr env, k') \<and>
          decryptRSA toy_crypto env 7 = Inr (replicate 500 CHR ''a''))"
proof -
  have m: "modulus_length toy_crypto 2048 = 2048" by (simp add: toy_crypto_def)
  note t = encrypt_decrypt_roundtrip [OF length_toy_key toy_stream_correct toy_tag_16_bytes m
      toy_oaep_correct toy_utf8_roundtrip]
  show ?thesis
    using length_toy_key
      t [where priv = 7 and plain = "[]" and rnd = toy_random and k = 0, THEN conjunct1]
      t [where priv = 7 and plain = "''round trip''" and rnd = toy_random and k = 5,
         THEN conjunct2, THEN conjunct1]
      t [where priv = 7 and plain = "replicate 500 CHR ''a''" and rnd = toy_random and k = 3,
         THEN conjunct2, THEN conjunct2]
    by (intro conjI)
qed


text \<open>
  Claim C5. With a 2048-bit key the chunk size of the code, 190, is the capacity of
  one RSA-OAEP block (256 bytes minus 66 of padding). Encrypting a plaintext of \<open>L\<close>
  bytes succeeds and gives \<open>L / 190\<close> rounded up chunks, which is also the envelope's
  chunk count; chunk \<open>j\<close> encrypts the bytes from \<open>190 * j\<close> up to \<open>190 * j + 190\<close>,
  whatever the key and the randomness; and decryption decrypts the chunks one by one
  in their order and concatenates them to exactly the \<open>L\<close> bytes of the plaintext.
\<close>

theorem asymmetric_chunking:
  assumes "modulus_length L pub = 2048"
  shows "maxChunkSize = modulus_length L pub div 8 - 66 \<and>
     (\<exists>env. encryptRSA L rnd plain pub k = (Inr env, k + chunkCount env) \<and>
        chunkCount env = nat \<lceil>real (length (utf8_encode L plain)) / real maxChunkSize\<rceil> \<and>
        length (encrypted_chunks env) = chunkCount env \<and>
        (\<forall>j < chunkCount env.
           encrypted_chunks env ! j =
             toString_hex (oaep_encrypt L pub (randomBytes rnd (k + j) 32)
               (slice_buf (utf8_encode L plain) (maxChunkSize * j)
                  (maxChunkSize * j + maxChunkSize)))) \<and>
        (oaep_correct L pub priv \<longrightarrow>
           decryptRSA_loop L priv (encrypted_chunks env) [] =
             Inr (map (\<lambda>j. slice_buf (utf8_encode L plain) (maxChunkSize * j)
                               (maxChunkSize * j + maxChunkSize)) [0..<chunkCount env]) \<and>
           fullBuffer L env priv = Inr (utf8_encode L plain)))"
proof -
  let ?buf = "utf8_encode L plain"
  let ?n = "chunk_count (length ?buf)"
  let ?piece = "\<lambda>j. slice_buf ?buf (maxChunkSize * j) (maxChunkSize * j + maxChunkSize)"
  let ?env = "\<lparr>encrypted_chunks = map (encrypted_chunk L rnd pub ?buf 0 k) [0..<?n],
               chunkCount = ?n\<rparr>"
  have m: "modulus_length L pub div 8 = 256" using assms by simp
  then have m': "256 \<le> modulus_length L pub div 8" by simp
  have c: "maxChunkSize = modulus_length L pub div 8 - 66" using m by (simp add: maxChunkSize_def)
  have e: "encryptRSA L rnd plain pub k = (Inr ?env, k + chunkCount ?env)"
    using encryptRSA_result [OF m'] by simp
  have n: "chunkCount ?env = nat \<lceil>real (length ?buf) / real maxChunkSize\<rceil>"
    by (simp add: chunk_count_ceiling)
  have l: "length (encrypted_chunks ?env) = chunkCount ?env" by simp
  have j: "\<forall>j < chunkCount ?env. encrypted_chunks ?env ! j =
             toString_hex (oaep_encrypt L pub (randomBytes rnd (k + j) 32) (?piece j))"
    by (simp add: encrypted_chunk_def)
  have d: "oaep_correct L pub priv \<longrightarrow>
           decryptRSA_loop L priv (encrypted_chunks ?env) [] = Inr (map ?piece [0..<chunkCount ?env]) \<and>
           fullBuffer L ?env priv = Inr ?buf"
  proof
    assume oc: "oaep_correct L pub priv"
    have dec: "privateDecrypt L priv (from_hex (encrypted_chunk L rnd pub ?buf 0 k j)) = Inr (?piece j)" for j
    proof -
      have "length (?piece j) \<le> 190"
        using length_slice_le [of ?buf "maxChunkSize * j" maxChunkSize] by (simp add: maxChunkSize_def)
      then have "length (?piece j) + 66 \<le> modulus_length L pub div 8" using m by linarith
      then have "oaep_decrypt L priv (oaep_encrypt L pub (randomBytes rnd (k + j) 32) (?piece j)) =
          Some (?piece j)"
        using oc by (simp add: oaep_correct_def)
      then show ?thesis
        by (simp add: encrypted_chunk_def from_hex_toString_hex privateDecrypt_def)
    qed
    have "decryptRSA_loop L priv (map (encrypted_chunk L rnd pub ?buf 0 k) [0..<?n]) [] =
        Inr ([] @ map ?piece [0..<?n])"
      by (rule decryptRSA_loop_map) (simp add: dec)
    then show "decryptRSA_loop L priv (encrypted_chunks ?env) [] = Inr (map ?piece [0..<chunkCount ?env]) \<and>
           fullBuffer L ?env priv = Inr ?buf"
      using fullBuffer_chunks [OF m oc, of rnd ?buf k ?n] by simp
  qed
  show ?thesis using c e n l j d by blast
qed

theorem asymmetric_chunking_witness:
  "modulus_length toy_crypto 2048 = 2048 \<and>
   (\<exists>env. encryptRSA toy_crypto toy_random (replicate 200 CHR ''a'') 2048 0 = (Inr env, 2) \<and>
      chunkCount env = 2 \<and> length (encrypted_chunks env) = 2 \<and>
      fullBuffer toy_crypto env 7 = Inr (utf8_encode toy_crypto (replicate 200 CHR ''a'')))"
proof -
  have m: "modulus_length toy_crypto 2048 = 2048" by (simp add: toy_crypto_def)
  have len: "length (utf8_encode toy_crypto (replicate 200 CHR ''a'')) = 200"
    by (simp add: toy_crypto_def)
  have "\<lceil>(200 :: real) / 190\<rceil> = 2" by (rule ceiling_unique) simp_all
  then have two: "nat \<lceil>real (length (utf8_encode toy_crypto (replicate 200 CHR ''a''))) /
      real maxChunkSize\<rceil> = 2"
    by (simp add: len maxChunkSize_def)
  from asymmetric_chunking [OF m, where plain = "replicate 200 CHR ''a''" and rnd = toy_random
      and k = 0 and priv = 7]
  obtain env where
    e: "encryptRSA toy_crypto toy_random (replicate 200 CHR ''a'') 2048 0 = (Inr env, 0 + chunkCount env)"
    and n: "chunkCount env = nat \<lceil>real (length (utf8_encode toy_crypto (replicate 200 CHR ''a''))) /
      real maxChunkSize\<rceil>"
    and l: "length (encrypted_chunks env) = chunkCount env"
    and d: "oaep_correct toy_crypto 2048 7 \<longrightarrow>
           decryptRSA_loop toy_crypto 7 (encrypted_chunks env) [] =
             Inr (map (\<lambda>j. slice_buf (utf8_encode toy_crypto (replicate 200 CHR ''a'')) (maxChunkSize * j)
                               (maxChunkSize * j + maxChunkSize)) [0..<chunkCount env]) \<and>
           fullBuffer toy_crypto env 7 = Inr (utf8_encode toy_crypto (replicate 200 CHR ''a''))"
    by blast
  have "fullBuffer toy_crypto env 7 = Inr (utf8_encode toy_crypto (replicate 200 CHR ''a''))"
    using d toy_oaep_correct by blast
  then show ?thesis using m e n l two by auto
qed


text \<open>
  Claim C6. Take an envelope that \<^verbatim>\<open>encryptAES\<close> or \<^verbatim>\<open>encryptChaCha20\<close> produced.
  Changing any byte of its tag makes decryption fail with the authentication failure
  of \<^verbatim>\<open>decipher.final\<close>. Changing any byte of its ciphertext does the same whenever
  the cipher's tag tells the changed ciphertext from the original one, which is the
  guarantee of the authenticated cipher and not of this code. And for any envelope
  whatsoever, decryption returns a plaintext only if the tag it was given is the tag
  of the ciphertext it was given: a tampered envelope never yields a plaintext
  without passing the check.
\<close>

theorem tamper_detection:
  assumes "length key = 32" and "tag_16_bytes L"
    and "encryptAES L rnd plain key k = (Inr envA, kA)"
    and "encryptChaCha20 L rnd plain key k = (Inr envC, kC)"
  shows "(i < length (from_hex (authTag envA)) \<and> b \<noteq> from_hex (authTag envA) ! i \<longrightarrow>
        decryptAES L (envA\<lparr>authTag := toString_hex ((from_hex (authTag envA))[i := b])\<rparr>) key =
          Inl AuthenticationFailure) \<and>
     (i < length (from_hex (authTag envC)) \<and> b \<noteq> from_hex (authTag envC) ! i \<longrightarrow>
        decryptChaCha20 L (envC\<lparr>authTag := toString_hex ((from_hex (authTag envC))[i := b])\<rparr>) key =
          Inl AuthenticationFailure) \<and>
     (i < length (from_hex (encrypted envA)) \<and> b \<noteq> from_hex (encrypted envA) ! i \<and>
      compute_tag L AES_256_GCM key (from_hex (iv envA)) ((from_hex (encrypted envA))[i := b]) \<noteq>
        compute_tag L AES_256_GCM key (from_hex (iv envA)) (from_hex (encrypted envA)) \<longrightarrow>
        decryptAES L (envA\<lparr>encrypted := toString_hex ((from_hex (encrypted envA))[i := b])\<rparr>) key =
          Inl AuthenticationFailure) \<and>
     (i < length (from_hex (encrypted envC)) \<and> b \<noteq> from_hex (encrypted envC) ! i \<and>
      compute_tag L CHACHA20_POLY1305 key (from_hex (iv envC)) ((from_hex (encrypted envC))[i := b]) \<noteq>
        compute_tag L CHACHA20_POLY1305 key (from_hex (iv envC)) (from_hex (encrypted envC)) \<longrightarrow>
        decryptChaCha20 L (envC\<lparr>encrypted := toString_hex ((from_hex (encrypted envC))[i := b])\<rparr>) key =
          Inl AuthenticationFailure) \<and>
     (\<forall>env q. decryptAES L env key = Inr q \<longrightarrow>
        take (length (from_hex (authTag env)))
          (compute_tag L AES_256_GCM key (from_hex (iv env)) (from_hex (encrypted env))) =
        from_hex (authTag env)) \<and>
     (\<forall>env q. decryptChaCha20 L env key = Inr q \<longrightarrow>
        take (length (from_hex (authTag env)))
          (compute_tag L CHACHA20_POLY1305 key (from_hex (iv env)) (from_hex (encrypted env))) =
        from_hex (authTag env))"
proof -
  have ivA: "valid_iv_length AES_256_GCM 16" and ivC: "valid_iv_length CHACHA20_POLY1305 12"
    by (simp_all add: valid_iv_length_def)
  have tA: "(None :: nat option) = None \<or> (None :: nat option) = Some 16"
    and tC: "Some (16::nat) = None \<or> Some (16::nat) = Some 16"
    by simp_all
  note encA = assms(3) [unfolded encryptAES_def]
  note encC = assms(4) [unfolded encryptChaCha20_def]
  have p1: "i < length (from_hex (authTag envA)) \<and> b \<noteq> from_hex (authTag envA) ! i \<longrightarrow>
        decryptAES L (envA\<lparr>authTag := toString_hex ((from_hex (authTag envA))[i := b])\<rparr>) key =
          Inl AuthenticationFailure"
    unfolding decryptAES_def
    using tampered_tag_rejected [OF assms(1) ivA tA assms(2) encA] by blast
  have p2: "i < length (from_hex (authTag envC)) \<and> b \<noteq> from_hex (authTag envC) ! i \<longrightarrow>
        decryptChaCha20 L (envC\<lparr>authTag := toString_hex ((from_hex (authTag envC))[i := b])\<rparr>) key =
          Inl AuthenticationFailure"
    unfolding decryptChaCha20_def
    using tampered_tag_rejected [OF assms(1) ivC tC assms(2) encC] by blast
  have p3: "i < length (from_hex (encrypted envA)) \<and> b \<noteq> from_hex (encrypted envA) ! i \<and>
      compute_tag L AES_256_GCM key (from_hex (iv envA)) ((from_hex (encrypted envA))[i := b]) \<noteq>
        compute_tag L AES_256_GCM key (from_hex (iv envA)) (from_hex (encrypted envA)) \<longrightarrow>
        decryptAES L (envA\<lparr>encrypted := toString_hex ((from_hex (encrypted envA))[i := b])\<rparr>) key =
          Inl AuthenticationFailure"
    unfolding decryptAES_def
    using tampered_ciphertext_rejected [OF assms(1) ivA tA assms(2) encA] by blast
  have p4: "i < length (from_hex (encrypted envC)) \<and> b \<noteq> from_hex (encrypted envC) ! i \<and>
      compute_tag L CHACHA20_POLY1305 key (from_hex (iv envC)) ((from_hex (encrypted envC))[i := b]) \<noteq>
        compute_tag L CHACHA20_POLY1305 key (from_hex (iv envC)) (from_hex (encrypted envC)) \<longrightarrow>
        decryptChaCha20 L (envC\<lparr>encrypted := toString_hex ((from_hex (encrypted envC))[i := b])\<rparr>) key =
          Inl AuthenticationFailure"
    unfolding decryptChaCha20_def
    using tampered_ciphertext_rejected [OF assms(1) ivC tC assms(2) encC] by blast
  have p5: "\<forall>env q. decryptAES L env key = Inr q \<longrightarrow>
        take (length (from_hex (authTag env)))
          (compute_tag L AES_256_GCM key (from_hex (iv env)) (from_hex (encrypted env))) =
        from_hex (authTag env)"
    unfolding decryptAES_def using decrypt_only_if_verified by blast
  have p6: "\<forall>env q. decryptChaCha20 L env key = Inr q \<longrightarrow>
        take (length (from_hex (authTag env)))
          (compute_tag L CHACHA20_POLY1305 key (from_hex (iv env)) (from_hex (encrypted env))) =
        from_hex (authTag env)"
    unfolding decryptChaCha20_def using decrypt_only_if_verified by blast
  show ?thesis using p1 p2 p3 p4 p5 p6 by (intro conjI)
qed

theorem tamper_detection_witness:
  "encryptAES toy_crypto toy_random ''hi'' toy_key 0 = (Inr toy_envelope_aes, 1) \<and>
   encryptChaCha20 toy_crypto toy_random ''hi'' toy_key 0 = (Inr toy_envelope_chacha, 1) \<and>
   decryptAES toy_crypto
     (toy_envelope_aes\<lparr>authTag := toString_hex ((from_hex (authTag toy_envelope_aes))[0 := 255])\<rparr>)
     toy_key = Inl AuthenticationFailure \<and>
   decryptChaCha20 toy_crypto
     (toy_envelope_chacha\<lparr>authTag := toString_hex ((from_hex (authTag toy_envelope_chacha))[0 := 255])\<rparr>)
     toy_key = Inl AuthenticationFailure \<and>
   decryptAES toy_crypto
     (toy_envelope_aes\<lparr>encrypted := toString_hex ((from_hex (encrypted toy_envelope_aes))[0 := 255])\<rparr>)
     toy_key = Inl AuthenticationFailure \<and>
   decryptChaCha20 toy_crypto
     (toy_envelope_chacha\<lparr>encrypted := toString_hex ((from_hex (encrypted toy_envelope_chacha))[0 := 255])\<rparr>)
     toy_key = Inl AuthenticationFailure"
proof -
  note t = tamper_detection [OF length_toy_key toy_tag_16_bytes toy_encryptAES toy_encryptChaCha20,
      where i = 0 and b = 255]
  have a1: "0 < length (from_hex (authTag toy_envelope_aes)) \<and>
      (255 :: byte) \<noteq> from_hex (authTag toy_envelope_aes) ! 0"
    by code_simp
  have a2: "0 < length (from_hex (authTag toy_envelope_chacha)) \<and>
      (255 :: byte) \<noteq> from_hex (authTag toy_envelope_chacha) ! 0"
    by code_simp
  have a3: "0 < length (from_hex (encrypted toy_envelope_aes)) \<and>
      (255 :: byte) \<noteq> from_hex (encrypted toy_envelope_aes) ! 0 \<and>
      compute_tag toy_crypto AES_256_GCM toy_key (from_hex (iv toy_envelope_aes))
        ((from_hex (encrypted toy_envelope_aes))[0 := 255]) \<noteq>
      compute_tag toy_crypto AES_256_GCM toy_key (from_hex (iv toy_envelope_aes))
        (from_hex (encrypted toy_envelope_aes))"
    by code_simp
  have a4: "0 < length (from_hex (encrypted toy_envelope_chacha)) \<and>
      (255 :: byte) \<noteq> from_hex (encrypted toy_envelope_chacha) ! 0 \<and>
      compute_tag toy_crypto CHACHA20_POLY1305 toy_key (from_hex (iv toy_envelope_chacha))
        ((from_hex (encrypted toy_envelope_chacha))[0 := 255]) \<noteq>
      compute_tag toy_crypto CHACHA20_POLY1305 toy_key (from_hex (iv toy_envelope_chacha))
        (from_hex (encrypted toy_envelope_chacha))"
    by code_simp
  show ?thesis
    using toy_encryptAES toy_encryptChaCha20
      t [THEN conjunct1, rule_format, OF a1]
      t [THEN conjunct2, THEN conjunct1, rule_format, OF a2]
      t [THEN conjunct2, THEN conjunct2, THEN conjunct1, rule_format, OF a3]
      t [THEN conjunct2, THEN conjunct2, THEN conjunct2, THEN conjunct1, rule_format, OF a4]
    by (intro conjI)
qed

section \<open>The requests of the client\<close>

lemma send_data_fields:
  assumes "send_data S enc key plain w = (r, w')"
  shows "server_strings w' = server_strings w \<and> requests w' = requests w \<and>
     clock_reads w' = clock_reads w"
  using assms by (auto simp: send_data_def split: option.splits prod.splits sum.splits)

lemma makeRequest_disconnected:
  assumes "\<not> connects orc (length (requests w))"
  shows "makeRequest orc meth path data w =
     (Inl NetworkError, w\<lparr>requests := requests w @ [(meth, path, if truthy data then data else None)]\<rparr>)"
  using assms by (simp add: makeRequest_def Let_def)

lemma makeRequest_connected:
  assumes "connects orc (length (requests w))"
  shows "makeRequest orc meth path data w =
     (Inr (snd (fst (server (accepts orc) (date_at orc) meth path
                        (if truthy data then data else None) (server_strings w)))),
      w\<lparr>requests := requests w @ [(meth, path, if truthy data then data else None)],
        server_strings := snd (server (accepts orc) (date_at orc) meth path
                        (if truthy data then data else None) (server_strings w))\<rparr>)"
  using assms by (simp add: makeRequest_def Let_def split: prod.splits)

lemma makeRequest_fields:
  assumes "makeRequest orc meth path data w = (r, w')"
  shows "requests w' = requests w @ [(meth, path, if truthy data then data else None)] \<and>
     clock_reads w' = clock_reads w \<and> draws w' = draws w"
proof (cases "connects orc (length (requests w))")
  case True
  then show ?thesis using assms makeRequest_connected [OF True, of meth path data] by auto
next
  case False
  then show ?thesis using assms makeRequest_disconnected [OF False, of meth path data] by auto
qed

lemma makeRequest_error:
  "fst (makeRequest orc meth path data w) = Inl e \<Longrightarrow>
     e = NetworkError \<and> \<not> connects orc (length (requests w))"
  by (cases "connects orc (length (requests w))")
     (simp_all add: makeRequest_connected makeRequest_disconnected)

lemma truthy_object: "truthy (Some (JObj obj))"
  by (simp add: truthy_def)

lemma iteration_Inr:
  assumes "iteration orc S P enc dec key plain w = (Inr d, w')"
  shows "\<exists>payload ident.
     requests w' = requests w @
       [(''POST'', ''/store'', Some (JObj [(''text'', JStr payload)])),
        (''GET'', ''/strings/'' @ ident, None)] \<and>
     clock_reads w' = clock_reads w + 2 \<and>
     d = duration_at orc (clock_reads w)"
proof -
  let ?w1 = "w\<lparr>clock_reads := Suc (clock_reads w)\<rparr>"
  obtain r2 w2 where sd: "send_data S enc key plain ?w1 = (r2, w2)" by (metis prod.exhaust)
  then obtain payload where r2: "r2 = Inr payload"
    using assms by (cases r2) (auto simp: iteration_def Let_def)
  let ?body = "Some (JObj [(''text'', JStr payload)])"
  obtain r3 w3 where st: "makeRequest orc ''POST'' ''/store'' ?body w2 = (r3, w3)"
    by (metis prod.exhaust)
  then obtain storeResponse where r3: "r3 = Inr storeResponse"
    using assms sd r2 by (cases r3) (auto simp: iteration_def Let_def)
  obtain ident where idt: "get_prop storeResponse ''id'' = Inr ident"
    using assms sd r2 st r3
    by (cases "get_prop storeResponse ''id''") (auto simp: iteration_def Let_def)
  let ?path = "''/strings/'' @ js_string ident"
  obtain r4 w4 where gt: "makeRequest orc ''GET'' ?path None w3 = (r4, w4)"
    by (metis prod.exhaust)
  then obtain getResponse where r4: "r4 = Inr getResponse"
    using assms sd r2 st r3 idt by (cases r4) (auto simp: iteration_def Let_def)
  have chk: "check_decrypt P dec key plain getResponse = Inr ()"
    using assms sd r2 st r3 idt gt r4
    by (cases "check_decrypt P dec key plain getResponse") (auto simp: iteration_def Let_def)
  have res: "d = real_of_int (hrtime_at orc (clock_reads w4) - hrtime_at orc (clock_reads w)) / 1000000"
    and w': "w' = w4\<lparr>clock_reads := Suc (clock_reads w4)\<rparr>"
    using assms sd r2 st r3 idt gt r4 chk by (auto simp: iteration_def Let_def)
  from send_data_fields [OF sd] have f2: "requests w2 = requests w" "clock_reads w2 = Suc (clock_reads w)"
    by simp_all
  from makeRequest_fields [OF st] have f3: "requests w3 = requests w2 @ [(''POST'', ''/store'', ?body)]"
    "clock_reads w3 = clock_reads w2"
    by (simp_all add: truthy_object)
  from makeRequest_fields [OF gt] have f4: "requests w4 = requests w3 @ [(''GET'', ?path, None)]"
    "clock_reads w4 = clock_reads w3"
    by (simp_all add: truthy_None)
  have "requests w' = requests w @ [(''POST'', ''/store'', ?body), (''GET'', ?path, None)]"
    using w' f2 f3 f4 by simp
  moreover have "clock_reads w' = clock_reads w + 2" using w' f2 f3 f4 by simp
  moreover have "d = duration_at orc (clock_reads w)" using res f2 f3 f4 by (simp add: duration_at_def)
  ultimately show ?thesis by blast
qed

section \<open>The loop of the benchmark\<close>

lemma upt_shift_map: "map f [0..<Suc n] = f 0 # map (\<lambda>i. f (Suc i)) [0..<n]"
  by (simp add: map_upt_Suc del: upt_Suc)

lemma run_iterations_Inr:
  assumes "run_iterations orc S P enc dec key plain n ts w = (Inr ts', w')"
  shows "ts' = ts @ map (\<lambda>i. duration_at orc (clock_reads w + 2 * i)) [0..<n] \<and>
     clock_reads w' = clock_reads w + 2 * n \<and>
     (\<exists>pairs. length pairs = n \<and>
        requests w' = requests w @ concat (map round_trip_requests pairs))"
  using assms
proof (induction n arbitrary: ts w)
  case 0
  then show ?case by simp
next
  case (Suc n)
  obtain r w1 where it: "iteration orc S P enc dec key plain w = (r, w1)" by (metis prod.exhaust)
  then obtain d where r: "r = Inr d" using Suc.prems by (cases r) auto
  have rest: "run_iterations orc S P enc dec key plain n (ts @ [d]) w1 = (Inr ts', w')"
    using Suc.prems it r by simp
  from iteration_Inr [OF it [unfolded r]] obtain payload ident where
    rq: "requests w1 = requests w @ round_trip_requests (payload, ident)"
    and ck: "clock_reads w1 = clock_reads w + 2"
    and d: "d = duration_at orc (clock_reads w)"
    by (auto simp: round_trip_requests_def)
  from Suc.IH [OF rest] obtain pairs where
    t: "ts' = (ts @ [d]) @ map (\<lambda>i. duration_at orc (clock_reads w1 + 2 * i)) [0..<n]"
    and c: "clock_reads w' = clock_reads w1 + 2 * n"
    and p: "length pairs = n" "requests w' = requests w1 @ concat (map round_trip_requests pairs)"
    by blast
  have "map (\<lambda>i. duration_at orc (clock_reads w + 2 * i)) [0..<Suc n] =
      d # map (\<lambda>i. duration_at orc (clock_reads w1 + 2 * i)) [0..<n]"
    by (simp only: upt_shift_map) (simp add: d ck)
  then have t': "ts' = ts @ map (\<lambda>i. duration_at orc (clock_reads w + 2 * i)) [0..<Suc n]"
    using t by simp
  have c': "clock_reads w' = clock_reads w + 2 * Suc n" using c ck by simp
  have "length ((payload, ident) # pairs) = Suc n \<and>
      requests w' = requests w @ concat (map round_trip_requests ((payload, ident) # pairs))"
    using p rq by simp
  then show ?case using t' c' by blast
qed

lemma decimal_of_id: "js_string (Some (JNum (int n))) = decimal n"
  by (simp add: js_string_def int_string_def)

lemma iteration_works:
  assumes works: "strategy_works orc S P enc dec key plain"
    and c0: "connects orc (length (requests w))"
    and c1: "connects orc (Suc (length (requests w)))"
  shows "\<exists>payload w'.
     iteration orc S P enc dec key plain w = (Inr (duration_at orc (clock_reads w)), w') \<and>
     server_strings w' = server_strings w @
       [\<lparr>rec_id = length (server_strings w), rec_text = JStr payload,
         rec_timestamp = date_at orc (length (server_strings w))\<rparr>] \<and>
     requests w' = requests w @
       round_trip_requests (payload, decimal (length (server_strings w))) \<and>
     clock_reads w' = clock_reads w + 2"
proof -
  let ?w1 = "w\<lparr>clock_reads := Suc (clock_reads w)\<rparr>"
  let ?len = "length (server_strings w)"
  from works [unfolded strategy_works_def, rule_format, of ?w1] obtain payload w2 where
    sd: "send_data S enc key plain ?w1 = (Inr payload, w2)"
    and ne: "payload \<noteq> []"
    and acc: "accepts orc (JObj [(''text'', JStr payload)])"
    and chk: "\<forall>r. rec_text r = JStr payload \<longrightarrow>
           check_decrypt P dec key plain (JsonBody (stored_json r)) = Inr ()"
    by blast
  from send_data_fields [OF sd] have f2: "server_strings w2 = server_strings w"
    "requests w2 = requests w" "clock_reads w2 = Suc (clock_reads w)"
    by simp_all
  let ?body = "Some (JObj [(''text'', JStr payload)])"
  let ?rec = "\<lparr>rec_id = ?len, rec_text = JStr payload, rec_timestamp = date_at orc ?len\<rparr>"
  let ?resp = "JsonBody (JObj [(''message'', JStr ''String stored successfully''),
                            (''id'', JNum (int ?len)), (''text'', JStr payload)])"
  let ?w3 = "w2\<lparr>requests := requests w2 @ [(''POST'', ''/store'', ?body)],
                server_strings := server_strings w @ [?rec]\<rparr>"
  have tr: "truthy (Some (JStr payload))" using ne by (simp add: truthy_def)
  have srv: "server (accepts orc) (date_at orc) ''POST'' ''/store'' ?body (server_strings w2) =
      ((201, ?resp), server_strings w @ [?rec])"
    using server_store_ok [where acc = "accepts orc" and obj = "[(''text'', JStr payload)]"
        and t = "JStr payload" and date = "date_at orc" and strings = "server_strings w"]
      acc tr f2
    by simp
  have st: "makeRequest orc ''POST'' ''/store'' ?body w2 = (Inr ?resp, ?w3)"
    using c0 f2 srv by (simp add: makeRequest_connected truthy_object)
  have idt: "get_prop ?resp ''id'' = Inr (Some (JNum (int ?len)))"
    by (simp add: get_prop_def)
  let ?path = "''/strings/'' @ decimal ?len"
  let ?w4 = "?w3\<lparr>requests := requests ?w3 @ [(''GET'', ?path, None)]\<rparr>"
  have "server (accepts orc) (date_at orc) ''GET'' ?path None (server_strings ?w3) =
      ((200, JsonBody (stored_json ((server_strings ?w3) ! ?len))), server_strings ?w3)"
    by (rule server_get_decimal) simp
  then have srv2: "server (accepts orc) (date_at orc) ''GET'' ?path None (server_strings ?w3) =
      ((200, JsonBody (stored_json ?rec)), server_strings ?w3)"
    by simp
  have "connects orc (length (requests ?w3))" using c1 f2 by simp
  from makeRequest_connected [OF this, of "''GET''" ?path None]
  have gt: "makeRequest orc ''GET'' ?path None ?w3 = (Inr (JsonBody (stored_json ?rec)), ?w4)"
    using srv2 by (simp add: truthy_None)
  have ck: "check_decrypt P dec key plain (JsonBody (stored_json ?rec)) = Inr ()"
    using chk by simp
  let ?w5 = "?w4\<lparr>clock_reads := Suc (clock_reads ?w4)\<rparr>"
  have "iteration orc S P enc dec key plain w =
      (Inr (real_of_int (hrtime_at orc (clock_reads ?w4) - hrtime_at orc (clock_reads w)) / 1000000), ?w5)"
    unfolding iteration_def Let_def sd prod.case sum.case st idt decimal_of_id gt ck
    by simp
  moreover have "clock_reads ?w4 = Suc (clock_reads w)" using f2 by simp
  ultimately have "iteration orc S P enc dec key plain w = (Inr (duration_at orc (clock_reads w)), ?w5)"
    by (simp add: duration_at_def)
  moreover have "server_strings ?w5 = server_strings w @ [?rec]" by simp
  moreover have "requests ?w5 = requests w @ round_trip_requests (payload, decimal ?len)"
    using f2 by (simp add: round_trip_requests_def)
  moreover have "clock_reads ?w5 = clock_reads w + 2" using f2 by simp
  ultimately show ?thesis by blast
qed


lemma upt_from: "[a..<a + Suc n] = a # [Suc a..<Suc a + n]"
  by (simp add: upt_conv_Cons del: upt_Suc)

lemma run_iterations_works:
  assumes works: "strategy_works orc S P enc dec key plain"
    and conn: "\<forall>j \<ge> length (requests w). connects orc j"
  shows "\<exists>ts' w'.
     run_iterations orc S P enc dec key plain n ts w = (Inr ts', w') \<and>
     map rec_id (server_strings w') =
       map rec_id (server_strings w) @
         [length (server_strings w)..<length (server_strings w) + n] \<and>
     map (fst \<circ> snd) (requests w') =
       map (fst \<circ> snd) (requests w) @
         concat (map (\<lambda>i. [''/store'', ''/strings/'' @ decimal i])
                   [length (server_strings w)..<length (server_strings w) + n])"
  using conn
proof (induction n arbitrary: ts w)
  case 0
  then show ?case by simp
next
  case (Suc n)
  let ?len = "length (server_strings w)"
  have c0: "connects orc (length (requests w))" and c1: "connects orc (Suc (length (requests w)))"
    using Suc.prems by simp_all
  from iteration_works [OF works c0 c1] obtain payload w1 where
    it: "iteration orc S P enc dec key plain w = (Inr (duration_at orc (clock_reads w)), w1)"
    and ss: "server_strings w1 = server_strings w @
       [\<lparr>rec_id = ?len, rec_text = JStr payload, rec_timestamp = date_at orc ?len\<rparr>]"
    and rq: "requests w1 = requests w @ round_trip_requests (payload, decimal ?len)"
    by blast
  have "\<forall>j \<ge> length (requests w1). connects orc j"
    using Suc.prems rq by (simp add: round_trip_requests_def)
  from Suc.IH [OF this, of "ts @ [duration_at orc (clock_reads w)]"] obtain ts' w' where
    run: "run_iterations orc S P enc dec key plain n (ts @ [duration_at orc (clock_reads w)]) w1 =
        (Inr ts', w')"
    and ids: "map rec_id (server_strings w') =
       map rec_id (server_strings w1) @ [length (server_strings w1)..<length (server_strings w1) + n]"
    and paths: "map (fst \<circ> snd) (requests w') =
       map (fst \<circ> snd) (requests w1) @
         concat (map (\<lambda>i. [''/store'', ''/strings/'' @ decimal i])
                   [length (server_strings w1)..<length (server_strings w1) + n])"
    by blast
  have len1: "length (server_strings w1) = Suc ?len" using ss by simp
  have r: "run_iterations orc S P enc dec key plain (Suc n) ts w = (Inr ts', w')"
    using it run by simp
  have i: "map rec_id (server_strings w') = map rec_id (server_strings w) @ [?len..<?len + Suc n]"
    unfolding upt_from using ids ss len1 by simp
  have p: "map (fst \<circ> snd) (requests w') =
       map (fst \<circ> snd) (requests w) @
         concat (map (\<lambda>i. [''/store'', ''/strings/'' @ decimal i]) [?len..<?len + Suc n])"
    unfolding upt_from using paths rq len1 by (simp add: round_trip_requests_def)
  show ?case using r i p by blast
qed

lemma benchmark_default:
  "benchmark orc S P enc dec key plain None w = benchmark orc S P enc dec key plain (Some 100) w"
  by (simp add: benchmark_def)

lemma benchmark_Inr:
  assumes "run_iterations orc S P enc dec key plain n [] w = (Inr ts', w')" and "0 < n"
  shows "\<exists>s. benchmark orc S P enc dec key plain (Some (int n)) w = (Inr s, w')"
proof -
  have "length ts' = n" using run_iterations_Inr [OF assms(1)] by simp
  then have "ts' \<noteq> []" using assms(2) by auto
  then show ?thesis using assms(1) by (simp add: benchmark_def statistics_nonempty)
qed

lemma iteration_disconnected:
  assumes "send_data S enc key plain (w\<lparr>clock_reads := Suc (clock_reads w)\<rparr>) = (Inr payload, w1)"
    and "\<not> connects orc (length (requests w))"
  shows "\<exists>w'. iteration orc S P enc dec key plain w = (Inl NetworkError, w') \<and>
     length (requests w') = Suc (length (requests w))"
proof -
  from send_data_fields [OF assms(1)] have "requests w1 = requests w" by simp
  then have "\<not> connects orc (length (requests w1))" using assms(2) by simp
  from makeRequest_disconnected [OF this]
  have "makeRequest orc ''POST'' ''/store'' (Some (JObj [(''text'', JStr payload)])) w1 =
      (Inl NetworkError,
       w1\<lparr>requests := requests w1 @ [(''POST'', ''/store'', Some (JObj [(''text'', JStr payload)]))]\<rparr>)"
    by (simp add: truthy_object)
  then show ?thesis
    using assms(1) \<open>requests w1 = requests w\<close> by (simp add: iteration_def Let_def)
qed

lemma toy_parse_stringify:
  assumes "length (iv e) = 32" and "length (authTag e) = 32"
  shows "toy_parse (toy_stringify e) = Inr e"
  using assms by (simp add: toy_parse_def toy_stringify_def)

lemma get_prop_stored_text: "get_prop (JsonBody (stored_json r)) ''text'' = Inr (Some (rec_text r))"
  by (simp add: get_prop_def stored_json_def)

lemma check_decrypt_mismatch:
  assumes "get_prop getResponse ''text'' = Inr t" and "P (js_string t) = Inr env"
    and "g env key = Inr decrypted" and "decrypted \<noteq> plain"
  shows "check_decrypt P (Some g) key plain getResponse = Inl DataMismatch"
  using assms by (simp add: check_decrypt_def)

lemma symmetric_strategy_works:
  assumes key: "length key = 32" and nonce: "valid_iv_length alg n"
    and tlen: "tlen = None \<or> tlen = Some 16"
    and sc: "stream_correct L" and tg: "tag_16_bytes L" and u: "utf8_roundtrip L plain"
    and car: "carries orc S P (encrypt_with alg n tlen L rnd) key plain"
  shows "strategy_works orc S P (Some (encrypt_with alg n tlen L rnd))
     (Some (decrypt_with alg tlen L)) key plain"
  unfolding strategy_works_def
proof
  fix w :: world
  let ?k = "draws w"
  from symmetric_roundtrip [OF key nonce tlen sc tg u, of rnd ?k] obtain env where
    enc: "encrypt_with alg n tlen L rnd plain key ?k = (Inr env, Suc ?k)"
    and dec: "decrypt_with alg tlen L env key = Inr plain"
    by blast
  from car [unfolded carries_def, rule_format, OF enc]
  have parse: "P (S env) = Inr env" and ne: "S env \<noteq> []"
    and acc: "accepts orc (JObj [(''text'', JStr (S env))])"
    by simp_all
  have sd: "send_data S (Some (encrypt_with alg n tlen L rnd)) key plain w =
      (Inr (S env), w\<lparr>draws := Suc ?k\<rparr>)"
    using enc by (simp add: send_data_def)
  have chk: "\<forall>r. rec_text r = JStr (S env) \<longrightarrow>
      check_decrypt P (Some (decrypt_with alg tlen L)) key plain (JsonBody (stored_json r)) = Inr ()"
    using parse dec by (simp add: check_decrypt_def get_prop_stored_text js_string_def)
  show "\<exists>payload w'.
      send_data S (Some (encrypt_with alg n tlen L rnd)) key plain w = (Inr payload, w') \<and>
      payload \<noteq> [] \<and>
      accepts orc (JObj [(''text'', JStr payload)]) \<and>
      (\<forall>r. rec_text r = JStr payload \<longrightarrow>
         check_decrypt P (Some (decrypt_with alg tlen L)) key plain (JsonBody (stored_json r)) = Inr ())"
    using sd ne acc chk by blast
qed

lemma toy_accepts_text: "toy_accepts (JObj [(''text'', JStr s)]) = (length s \<le> 1000)"
  by (simp add: toy_accepts_def)

lemma toy_carries:
  assumes "length plain \<le> 400"
  shows "carries toy_env toy_stringify toy_parse (encryptAES toy_crypto toy_random) toy_key plain"
  unfolding carries_def
proof (intro allI impI)
  fix k e k'
  assume a: "encryptAES toy_crypto toy_random plain toy_key k = (Inr e, k')"
  let ?nonce = "randomBytes toy_random k 16"
  let ?ct = "stream_encrypt toy_crypto AES_256_GCM toy_key ?nonce (utf8_encode toy_crypto plain)"
  let ?tag = "compute_tag toy_crypto AES_256_GCM toy_key ?nonce ?ct"
  have iv16: "valid_iv_length AES_256_GCM 16" by (simp add: valid_iv_length_def)
  have e: "e = \<lparr>encrypted = toString_hex ?ct, iv = toString_hex ?nonce, authTag = toString_hex ?tag\<rparr>"
    using a encrypt_with_result [OF length_toy_key iv16, of None toy_crypto toy_random plain k]
    by (simp add: encryptAES_def)
  have "length ?tag = 16" using toy_tag_16_bytes by (simp add: tag_16_bytes_def)
  then have lens: "length (iv e) = 32" "length (authTag e) = 32"
    by (simp_all add: e length_toString_hex length_randomBytes)
  have "length ?ct = length plain" by (simp add: toy_crypto_def)
  then have lc: "length (encrypted e) = 2 * length plain"
    by (simp add: e length_toString_hex)
  have p: "toy_parse (toy_stringify e) = Inr e" using lens by (rule toy_parse_stringify)
  have n: "toy_stringify e \<noteq> []" using lens by (auto simp: toy_stringify_def)
  have "length (toy_stringify e) \<le> 1000"
    using lens lc assms by (simp add: toy_stringify_def)
  then have c: "accepts toy_env (JObj [(''text'', JStr (toy_stringify e))])"
    by (simp add: toy_env_def toy_accepts_text)
  show "toy_parse (toy_stringify e) = Inr e \<and> toy_stringify e \<noteq> [] \<and>
      accepts toy_env (JObj [(''text'', JStr (toy_stringify e))])"
    using p n c by (intro conjI)
qed

lemma three_iterations:
  assumes works: "strategy_works orc S P enc dec key plain"
    and conn: "\<forall>j \<ge> length (requests w). connects orc j"
  shows "\<exists>ts' w'.
     run_iterations orc S P enc dec key plain 3 [] w = (Inr ts', w') \<and>
     length ts' = 3 \<and>
     map rec_id (server_strings w') =
       map rec_id (server_strings w) @
         [length (server_strings w), length (server_strings w) + 1, length (server_strings w) + 2]"
proof -
  from run_iterations_works [OF works conn, of 3 "[]"] obtain ts' w' where
    run: "run_iterations orc S P enc dec key plain 3 [] w = (Inr ts', w')"
    and ids: "map rec_id (server_strings w') =
           map rec_id (server_strings w) @
             [length (server_strings w)..<length (server_strings w) + 3]"
    by blast
  have len: "length ts' = 3" using run_iterations_Inr [OF run] by simp
  have "[length (server_strings w)..<length (server_strings w) + 3] =
      [length (server_strings w), length (server_strings w) + 1, length (server_strings w) + 2]"
    by (simp add: upt_conv_Cons numeral_3_eq_3 del: upt_Suc)
  then show ?thesis using run len ids by simp
qed

lemma toy_strategy_works:
  assumes "length plain \<le> 400"
  shows "strategy_works toy_env toy_stringify toy_parse
     (Some (encryptAES toy_crypto toy_random)) (Some (decryptAES toy_crypto)) toy_key plain"
  unfolding encryptAES_def decryptAES_def
  using length_toy_key _ _ toy_stream_correct toy_tag_16_bytes toy_utf8_roundtrip
    toy_carries [OF assms, unfolded encryptAES_def]
  by (rule symmetric_strategy_works) (simp_all add: valid_iv_length_def)

lemma get_prop_server:
  "\<exists>v. get_prop (snd (fst (server acc date meth path data strings))) name = Inr v"
proof -
  have ps: "\<exists>obj. snd (fst (post_store b now strings)) = JsonBody (JObj obj)" for b now
    by (simp add: post_store_def Let_def)
  have gs: "\<exists>obj. snd (get_string param strings) = JsonBody (JObj obj)" for param
    by (simp add: get_string_def Let_def stored_json_def split: option.splits)
  have rt: "(\<exists>obj. snd (fst (routes meth path b now strings)) = JsonBody (JObj obj)) \<or>
      (\<exists>t. snd (fst (routes meth path b now strings)) = TextBody t)" for b now
    using ps [of b now] gs by (auto simp: routes_def get_strings_def split: option.splits)
  have ej: "express_json acc data = Inl r \<Longrightarrow> \<exists>t. snd r = TextBody t" for r
    by (auto simp: express_json_def split: option.splits if_splits json.splits)
  have "(\<exists>obj. snd (fst (server acc date meth path data strings)) = JsonBody (JObj obj)) \<or>
      (\<exists>t. snd (fst (server acc date meth path data strings)) = TextBody t)"
  proof (cases "express_json acc data")
    case (Inl r)
    then show ?thesis using ej [OF Inl] by (simp add: server_def)
  next
    case (Inr b)
    then show ?thesis using rt [of b "date (length strings)"] by (simp add: server_def)
  qed
  then show ?thesis by (auto simp: get_prop_def)
qed

lemma iteration_get_disconnected:
  assumes sd: "send_data S enc key plain (w\<lparr>clock_reads := Suc (clock_reads w)\<rparr>) = (Inr payload, w1)"
    and c0: "connects orc (length (requests w))"
    and c1: "\<not> connects orc (Suc (length (requests w)))"
  shows "\<exists>w'. iteration orc S P enc dec key plain w = (Inl NetworkError, w') \<and>
     length (requests w') = length (requests w) + 2"
proof -
  from send_data_fields [OF sd] have r1: "requests w1 = requests w" by simp
  let ?body = "Some (JObj [(''text'', JStr payload)])"
  obtain r3 w3 where st: "makeRequest orc ''POST'' ''/store'' ?body w1 = (r3, w3)"
    by (metis prod.exhaust)
  have c0': "connects orc (length (requests w1))" using c0 r1 by simp
  have r3: "r3 = Inr (snd (fst (server (accepts orc) (date_at orc) ''POST'' ''/store''
                        ?body (server_strings w1))))"
    using st makeRequest_connected [OF c0', of "''POST''" "''/store''" ?body]
    by (simp add: truthy_object)
  from makeRequest_fields [OF st] have rq3: "requests w3 = requests w @ [(''POST'', ''/store'', ?body)]"
    using r1 by (simp add: truthy_object)
  obtain ident where idt: "get_prop (snd (fst (server (accepts orc) (date_at orc) ''POST'' ''/store''
                        ?body (server_strings w1)))) ''id'' = Inr ident"
    using get_prop_server by blast
  have "\<not> connects orc (length (requests w3))" using c1 rq3 by simp
  from makeRequest_disconnected [OF this, of "''GET''" "''/strings/'' @ js_string ident" None]
  have gt: "makeRequest orc ''GET'' (''/strings/'' @ js_string ident) None w3 =
      (Inl NetworkError,
       w3\<lparr>requests := requests w3 @ [(''GET'', ''/strings/'' @ js_string ident, None)]\<rparr>)"
    by (simp add: truthy_None)
  have "iteration orc S P enc dec key plain w =
      (Inl NetworkError,
       w3\<lparr>requests := requests w3 @ [(''GET'', ''/strings/'' @ js_string ident, None)]\<rparr>)"
    unfolding iteration_def Let_def sd prod.case sum.case st r3 idt gt by simp
  then show ?thesis using rq3 by simp
qed

lemma run_iterations_append:
  "run_iterations orc S P enc dec key plain (m + n) ts w =
     (case run_iterations orc S P enc dec key plain m ts w of
        (Inl e, w') \<Rightarrow> (Inl e, w')
      | (Inr ts1, w1) \<Rightarrow> run_iterations orc S P enc dec key plain n ts1 w1)"
proof (induction m arbitrary: ts w)
  case 0
  show ?case by simp
next
  case (Suc m)
  show ?case
    by (cases "iteration orc S P enc dec key plain w")
       (auto simp: Suc.IH split: sum.splits)
qed

lemma run_iterations_pass_fails:
  assumes "run_iterations orc S P enc dec key plain m ts w = (Inr ts1, w1)"
    and "iteration orc S P enc dec key plain w1 = (Inl e, w2)"
  shows "run_iterations orc S P enc dec key plain (m + Suc n) ts w = (Inl e, w2)"
proof -
  have "run_iterations orc S P enc dec key plain (m + Suc n) ts w =
      run_iterations orc S P enc dec key plain (Suc n) ts1 w1"
    by (subst run_iterations_append) (simp only: assms(1) prod.case sum.case)
  also have "\<dots> = (Inl e, w2)" using assms(2) by simp
  finally show ?thesis .
qed

lemma benchmark_pass_fails:
  assumes "run_iterations orc S P enc dec key plain m [] w = (Inr ts1, w1)"
    and "iteration orc S P enc dec key plain w1 = (Inl e, w2)"
  shows "benchmark orc S P enc dec key plain (Some (int (m + Suc n))) w = (Inl e, w2)"
  using run_iterations_pass_fails [OF assms, of n] by (simp add: benchmark_def del: of_nat_add of_nat_Suc)

lemma iteration_iff:
  "iteration orc S P enc dec key plain w = (Inr d, w') \<longleftrightarrow>
     (\<exists>payload w2 storeResponse w3 ident getResponse w4.
        send_data S enc key plain (w\<lparr>clock_reads := Suc (clock_reads w)\<rparr>) = (Inr payload, w2) \<and>
        makeRequest orc ''POST'' ''/store'' (Some (JObj [(''text'', JStr payload)])) w2 =
          (Inr storeResponse, w3) \<and>
        get_prop storeResponse ''id'' = Inr ident \<and>
        makeRequest orc ''GET'' (''/strings/'' @ js_string ident) None w3 = (Inr getResponse, w4) \<and>
        check_decrypt P dec key plain getResponse = Inr () \<and>
        d = real_of_int (hrtime_at orc (clock_reads w4) - hrtime_at orc (clock_reads w)) / 1000000 \<and>
        w' = w4\<lparr>clock_reads := Suc (clock_reads w4)\<rparr>)"
  by (auto simp: iteration_def Let_def split: prod.splits sum.splits)

lemma check_decrypt_iff:
  "check_decrypt P (Some g) key plain r = Inr () \<longleftrightarrow>
     (\<exists>t env. get_prop r ''text'' = Inr t \<and> P (js_string t) = Inr env \<and> g env key = Inr plain)"
  by (auto simp: check_decrypt_def split: sum.splits if_splits)

lemma check_decrypt_None: "check_decrypt P None key plain r = Inr ()"
  by (simp add: check_decrypt_def)

lemma run_iterations_chain:
  assumes "run_iterations orc S P enc dec key plain n ts w = (Inr ts', w')"
  shows "\<exists>ws. ws 0 = w \<and> ws n = w' \<and>
     (\<forall>i<n. iteration orc S P enc dec key plain (ws i) =
               (Inr (ts' ! (length ts + i)), ws (Suc i)))"
  using assms
proof (induction n arbitrary: ts w)
  case 0
  then show ?case by (intro exI [of _ "\<lambda>_. w"]) simp
next
  case (Suc n)
  obtain r w1 where it: "iteration orc S P enc dec key plain w = (r, w1)" by (metis prod.exhaust)
  then obtain d where r: "r = Inr d" using Suc.prems by (cases r) auto
  have run: "run_iterations orc S P enc dec key plain n (ts @ [d]) w1 = (Inr ts', w')"
    using Suc.prems it r by simp
  from run_iterations_Inr [OF run]
  have "ts' = (ts @ [d]) @ map (\<lambda>i. duration_at orc (clock_reads w1 + 2 * i)) [0..<n]"
    by blast
  then have d: "ts' ! length ts = d" by (simp add: nth_append)
  from Suc.IH [OF run] obtain ws where ws0: "ws 0 = w1" and wsn: "ws n = w'"
    and step: "\<forall>i<n. iteration orc S P enc dec key plain (ws i) =
               (Inr (ts' ! (length (ts @ [d]) + i)), ws (Suc i))"
    by blast
  let ?ws = "\<lambda>i. case i of 0 \<Rightarrow> w | Suc j \<Rightarrow> ws j"
  have a: "?ws 0 = w" by simp
  have b: "?ws (Suc n) = w'" using wsn by simp
  have c: "\<forall>i<Suc n. iteration orc S P enc dec key plain (?ws i) =
               (Inr (ts' ! (length ts + i)), ?ws (Suc i))"
  proof (intro allI impI)
    fix i
    assume i: "i < Suc n"
    show "iteration orc S P enc dec key plain (?ws i) =
               (Inr (ts' ! (length ts + i)), ?ws (Suc i))"
    proof (cases i)
      case 0
      then show ?thesis using it r d ws0 by simp
    next
      case (Suc j)
      then have "j < n" using i by simp
      from step [rule_format, OF this] show ?thesis using Suc by simp
    qed
  qed
  show ?case using a b c by (intro exI [of _ ?ws] conjI)
qed

section \<open>The claims about the transport and the runner\<close>

text \<open>
  Claim C4, as stated: a store fails on any non-success HTTP status, and a retrieval
  fails when the server reports no record. The code never reads the status code. The
  server answers a store of an empty text with status 400 and the retrieval of an
  unknown identifier with status 404, and \<^verbatim>\<open>makeRequest\<close> resolves with the error
  body in both cases; an iteration of the benchmark without a strategy, whose store
  was refused, completes and records its duration.
\<close>

theorem request_failures_counterexample:
  "fst (fst (server (accepts toy_env) (date_at toy_env) ''POST'' ''/store''
               (Some (JObj [(''text'', JStr [])])) [])) = 400 \<and>
   fst (makeRequest toy_env ''POST'' ''/store'' (Some (JObj [(''text'', JStr [])])) started_world) =
     Inr (JsonBody (JObj [(''error'', JStr ''Text field is required'')])) \<and>
   fst (fst (server (accepts toy_env) (date_at toy_env) ''GET'' ''/strings/5'' None [])) = 404 \<and>
   fst (makeRequest toy_env ''GET'' ''/strings/5'' None started_world) =
     Inr (JsonBody (JObj [(''error'', JStr ''String not found'')])) \<and>
   fst (iteration toy_env toy_stringify toy_parse None None toy_key [] started_world) = Inr 1"
  by code_simp

text \<open>
  Claim C4, amended. A request fails exactly when the connection fails, and it then
  fails with the error of the connection. Whenever the server answers, whatever the
  status, the request succeeds with the body of the answer. Every call sends exactly
  one request, so nothing is retried. A connection failure ends the benchmark run at
  once with that error, in whichever pass and at whichever of the two requests it
  occurs: when \<open>m\<close> passes have completed and, in the next pass, the store or the
  retrieval cannot connect, the run of any greater number of passes fails with the
  error of the connection, the failed request is the last one sent (the store alone,
  or the store and the retrieval), and no summary is returned.
\<close>

theorem request_failures:
  "(fst (makeRequest orc meth path data w) = Inl NetworkError \<longleftrightarrow>
       \<not> connects orc (length (requests w))) \<and>
   (\<forall>e. fst (makeRequest orc meth path data w) = Inl e \<longrightarrow> e = NetworkError) \<and>
   (connects orc (length (requests w)) \<longrightarrow>
      fst (makeRequest orc meth path data w) =
        Inr (snd (fst (server (accepts orc) (date_at orc) meth path
                         (if truthy data then data else None) (server_strings w))))) \<and>
   requests (snd (makeRequest orc meth path data w)) =
     requests w @ [(meth, path, if truthy data then data else None)] \<and>
   (run_iterations orc S P enc dec key plain m [] w = (Inr ts1, w1) \<and>
    (\<exists>payload w2. send_data S enc key plain (w1\<lparr>clock_reads := Suc (clock_reads w1)\<rparr>) =
         (Inr payload, w2)) \<and>
    (\<not> connects orc (length (requests w1)) \<or> \<not> connects orc (Suc (length (requests w1)))) \<longrightarrow>
      (\<exists>w'. run_iterations orc S P enc dec key plain (m + Suc n) [] w = (Inl NetworkError, w') \<and>
            benchmark orc S P enc dec key plain (Some (int (m + Suc n))) w =
              (Inl NetworkError, w') \<and>
            length (requests w') =
              (if connects orc (length (requests w1)) then length (requests w1) + 2
               else length (requests w1) + 1) \<and>
            \<not> connects orc (length (requests w') - 1)))"
proof -
  have p1: "fst (makeRequest orc meth path data w) = Inl NetworkError \<longleftrightarrow>
       \<not> connects orc (length (requests w))"
    by (cases "connects orc (length (requests w))")
       (simp_all add: makeRequest_connected makeRequest_disconnected)
  have p2: "\<forall>e. fst (makeRequest orc meth path data w) = Inl e \<longrightarrow> e = NetworkError"
    using makeRequest_error by blast
  have p3: "connects orc (length (requests w)) \<longrightarrow>
      fst (makeRequest orc meth path data w) =
        Inr (snd (fst (server (accepts orc) (date_at orc) meth path
                         (if truthy data then data else None) (server_strings w))))"
    by (simp add: makeRequest_connected)
  have p4: "requests (snd (makeRequest orc meth path data w)) =
     requests w @ [(meth, path, if truthy data then data else None)]"
    using makeRequest_fields [of orc meth path data w] by (metis prod.collapse)
  have p5: "run_iterations orc S P enc dec key plain m [] w = (Inr ts1, w1) \<and>
    (\<exists>payload w2. send_data S enc key plain (w1\<lparr>clock_reads := Suc (clock_reads w1)\<rparr>) =
         (Inr payload, w2)) \<and>
    (\<not> connects orc (length (requests w1)) \<or> \<not> connects orc (Suc (length (requests w1)))) \<longrightarrow>
      (\<exists>w'. run_iterations orc S P enc dec key plain (m + Suc n) [] w = (Inl NetworkError, w') \<and>
            benchmark orc S P enc dec key plain (Some (int (m + Suc n))) w =
              (Inl NetworkError, w') \<and>
            length (requests w') =
              (if connects orc (length (requests w1)) then length (requests w1) + 2
               else length (requests w1) + 1) \<and>
            \<not> connects orc (length (requests w') - 1))"
  proof
    assume a: "run_iterations orc S P enc dec key plain m [] w = (Inr ts1, w1) \<and>
      (\<exists>payload w2. send_data S enc key plain (w1\<lparr>clock_reads := Suc (clock_reads w1)\<rparr>) =
         (Inr payload, w2)) \<and>
      (\<not> connects orc (length (requests w1)) \<or> \<not> connects orc (Suc (length (requests w1))))"
    then have run: "run_iterations orc S P enc dec key plain m [] w = (Inr ts1, w1)"
      and dis: "\<not> connects orc (length (requests w1)) \<or>
                \<not> connects orc (Suc (length (requests w1)))"
      by blast+
    from a obtain payload w2 where
      sd: "send_data S enc key plain (w1\<lparr>clock_reads := Suc (clock_reads w1)\<rparr>) = (Inr payload, w2)"
      by blast
    have "\<exists>w'. iteration orc S P enc dec key plain w1 = (Inl NetworkError, w') \<and>
        length (requests w') =
          (if connects orc (length (requests w1)) then length (requests w1) + 2
           else length (requests w1) + 1) \<and>
        \<not> connects orc (length (requests w') - 1)"
    proof (cases "connects orc (length (requests w1))")
      case True
      then have "\<not> connects orc (Suc (length (requests w1)))" using dis by blast
      from iteration_get_disconnected [OF sd True this, of P dec] obtain w' where
        "iteration orc S P enc dec key plain w1 = (Inl NetworkError, w')"
        "length (requests w') = length (requests w1) + 2"
        by blast
      then show ?thesis using True \<open>\<not> connects orc (Suc (length (requests w1)))\<close> by auto
    next
      case False
      from iteration_disconnected [OF sd False, of P dec] obtain w' where
        "iteration orc S P enc dec key plain w1 = (Inl NetworkError, w')"
        "length (requests w') = Suc (length (requests w1))"
        by blast
      then show ?thesis using False by auto
    qed
    then obtain w' where it: "iteration orc S P enc dec key plain w1 = (Inl NetworkError, w')"
      and len: "length (requests w') =
          (if connects orc (length (requests w1)) then length (requests w1) + 2
           else length (requests w1) + 1)"
      and last: "\<not> connects orc (length (requests w') - 1)"
      by blast
    note r = run_iterations_pass_fails [OF run it, of n]
    note b = benchmark_pass_fails [OF run it, of n]
    show "\<exists>w'. run_iterations orc S P enc dec key plain (m + Suc n) [] w = (Inl NetworkError, w') \<and>
            benchmark orc S P enc dec key plain (Some (int (m + Suc n))) w =
              (Inl NetworkError, w') \<and>
            length (requests w') =
              (if connects orc (length (requests w1)) then length (requests w1) + 2
               else length (requests w1) + 1) \<and>
            \<not> connects orc (length (requests w') - 1)"
      using r b len last by (intro exI [of _ w'] conjI)
  qed
  show ?thesis using p1 p2 p3 p4 p5 by (intro conjI)
qed

theorem request_failures_witness:
  "connects flaky_env (length (requests fresh_world)) \<and>
   fst (makeRequest flaky_env ''GET'' ''/strings/5'' None fresh_world) =
     Inr (JsonBody (JObj [(''error'', JStr ''String not found'')])) \<and>
   requests (snd (makeRequest flaky_env ''GET'' ''/strings/5'' None fresh_world)) =
     [(''GET'', ''/strings/5'', None)] \<and>
   run_iterations flaky_env toy_stringify toy_parse None None toy_key ''hello'' 1 [] fresh_world =
     (Inr [1], after_one_pass) \<and>
   connects flaky_env (length (requests after_one_pass)) \<and>
   \<not> connects flaky_env (Suc (length (requests after_one_pass))) \<and>
   (\<exists>w'. run_iterations flaky_env toy_stringify toy_parse None None toy_key ''hello'' 3 []
           fresh_world = (Inl NetworkError, w') \<and>
         benchmark flaky_env toy_stringify toy_parse None None toy_key ''hello'' (Some 3) fresh_world =
           (Inl NetworkError, w') \<and>
         length (requests w') = 4)"
proof -
  note t = request_failures [where orc = flaky_env and meth = "''GET''" and path = "''/strings/5''"
      and data = None and w = fresh_world and m = 1 and n = 1 and S = toy_stringify
      and P = toy_parse and enc = None and dec = None and key = toy_key and plain = "''hello''"
      and ?ts1.0 = "[1]" and ?w1.0 = after_one_pass]
  have c0: "connects flaky_env (length (requests fresh_world))"
    by (simp add: flaky_env_def fresh_world_def)
  have srv: "snd (fst (server (accepts flaky_env) (date_at flaky_env) ''GET'' ''/strings/5'' None
                  (server_strings fresh_world))) =
      JsonBody (JObj [(''error'', JStr ''String not found'')])"
    by code_simp
  have a: "fst (makeRequest flaky_env ''GET'' ''/strings/5'' None fresh_world) =
      Inr (JsonBody (JObj [(''error'', JStr ''String not found'')]))"
    using t [THEN conjunct2, THEN conjunct2, THEN conjunct1] c0 srv by (simp add: truthy_None)
  have b: "requests (snd (makeRequest flaky_env ''GET'' ''/strings/5'' None fresh_world)) =
     [(''GET'', ''/strings/5'', None)]"
    using t [THEN conjunct2, THEN conjunct2, THEN conjunct2, THEN conjunct1]
    by (simp add: fresh_world_def truthy_None)
  have run: "run_iterations flaky_env toy_stringify toy_parse None None toy_key ''hello'' 1 []
      fresh_world = (Inr [1], after_one_pass)"
    by code_simp
  have sd: "\<exists>payload w2. send_data toy_stringify None toy_key ''hello''
      (after_one_pass\<lparr>clock_reads := Suc (clock_reads after_one_pass)\<rparr>) = (Inr payload, w2)"
    by (simp add: send_data_def)
  have c2: "connects flaky_env (length (requests after_one_pass))"
    by (simp add: flaky_env_def after_one_pass_def)
  have c3: "\<not> connects flaky_env (Suc (length (requests after_one_pass)))"
    by (simp add: flaky_env_def after_one_pass_def)
  have "\<exists>w'. run_iterations flaky_env toy_stringify toy_parse None None toy_key ''hello''
           (1 + Suc 1) [] fresh_world = (Inl NetworkError, w') \<and>
         benchmark flaky_env toy_stringify toy_parse None None toy_key ''hello''
           (Some (int (1 + Suc 1))) fresh_world = (Inl NetworkError, w') \<and>
         length (requests w') =
           (if connects flaky_env (length (requests after_one_pass))
            then length (requests after_one_pass) + 2
            else length (requests after_one_pass) + 1) \<and>
         \<not> connects flaky_env (length (requests w') - 1)"
    using t [THEN conjunct2, THEN conjunct2, THEN conjunct2, THEN conjunct2, rule_format,
        OF conjI [OF run conjI [OF sd disjI2 [OF c3]]]] .
  then obtain w' where
    r3: "run_iterations flaky_env toy_stringify toy_parse None None toy_key ''hello''
           (1 + Suc 1) [] fresh_world = (Inl NetworkError, w')"
    and b3: "benchmark flaky_env toy_stringify toy_parse None None toy_key ''hello''
           (Some (int (1 + Suc 1))) fresh_world = (Inl NetworkError, w')"
    and l3: "length (requests w') =
           (if connects flaky_env (length (requests after_one_pass))
            then length (requests after_one_pass) + 2
            else length (requests after_one_pass) + 1)"
    by blast
  have n3: "1 + Suc 1 = (3::nat)" by simp
  have i3: "int (1 + Suc 1) = 3" by simp
  have l4: "length (requests w') = 4" using l3 c2 by (simp add: after_one_pass_def)
  have d: "run_iterations flaky_env toy_stringify toy_parse None None toy_key ''hello'' 3 []
           fresh_world = (Inl NetworkError, w') \<and>
         benchmark flaky_env toy_stringify toy_parse None None toy_key ''hello'' (Some 3) fresh_world =
           (Inl NetworkError, w') \<and>
         length (requests w') = 4"
    using r3 [unfolded n3] b3 [unfolded i3] l4 by (intro conjI)
  then have e: "\<exists>w'. run_iterations flaky_env toy_stringify toy_parse None None toy_key ''hello'' 3 []
           fresh_world = (Inl NetworkError, w') \<and>
         benchmark flaky_env toy_stringify toy_parse None None toy_key ''hello'' (Some 3) fresh_world =
           (Inl NetworkError, w') \<and>
         length (requests w') = 4"
    by (intro exI)
  show ?thesis using c0 a b run c2 c3 e by (intro conjI)
qed

text \<open>
  Claim C9. Whenever the loop of the benchmark completes \<open>n\<close> passes it has pushed
  exactly \<open>n\<close> durations, one per pass and in order, and has sent exactly \<open>2 * n\<close>
  requests, a store and then a retrieval for each pass; and the passes are strictly
  sequential: there is a sequence of \<open>n + 1\<close> states, from the first state to the
  last, in which pass \<open>i\<close> starts in state \<open>i\<close>, ends in state \<open>i + 1\<close> and gives the
  \<open>i\<close>-th duration. A pass completes exactly when the data to send is produced (the
  plaintext, or the serialised result of the encryption), the store of that data is
  answered, the retrieval of \<^verbatim>\<open>/strings/\<close> followed by the \<^verbatim>\<open>id\<close> field of that very
  answer (which is \<^verbatim>\<open>undefined\<close> when the store was refused) is answered, and the
  check on the answer of that very retrieval passes; the duration is the difference
  of the two clock readings. With a decryption function the check passes exactly when
  the \<^verbatim>\<open>text\<close> field of the answer is parsed and decrypted to the plaintext itself;
  without one nothing is checked. When the strategy works (or there is none and the
  text is not empty) and the server is reachable, the loop does complete, for every
  \<open>n\<close>: each store is assigned the next identifier of the server, starting at the
  number of records it held, each retrieval asks for the identifier just assigned, and
  for \<open>n > 0\<close> the benchmark returns its summary. In particular, with either symmetric
  cipher, a 32-byte key, a library that meets the assumptions and JSON functions and a
  body parser that carry the envelopes of this plaintext, three passes against a
  reachable server give three durations and the server's next three identifiers, which
  on a fresh server are 0, 1, 2. An omitted iteration count means 100.
\<close>

theorem benchmark_iterations:
  "(run_iterations orc S P enc dec key plain n ts w = (Inr ts', w') \<longrightarrow>
      length ts' = length ts + n \<and>
      ts' = ts @ map (\<lambda>i. duration_at orc (clock_reads w + 2 * i)) [0..<n] \<and>
      (\<exists>pairs. length pairs = n \<and>
         requests w' = requests w @ concat (map round_trip_requests pairs)) \<and>
      (\<exists>ws. ws 0 = w \<and> ws n = w' \<and>
         (\<forall>i<n. iteration orc S P enc dec key plain (ws i) =
                   (Inr (ts' ! (length ts + i)), ws (Suc i))))) \<and>
   (iteration orc S P enc dec key plain v = (Inr d, v') \<longleftrightarrow>
      (\<exists>payload v2 storeResponse v3 ident getResponse v4.
         send_data S enc key plain (v\<lparr>clock_reads := Suc (clock_reads v)\<rparr>) = (Inr payload, v2) \<and>
         makeRequest orc ''POST'' ''/store'' (Some (JObj [(''text'', JStr payload)])) v2 =
           (Inr storeResponse, v3) \<and>
         get_prop storeResponse ''id'' = Inr ident \<and>
         makeRequest orc ''GET'' (''/strings/'' @ js_string ident) None v3 =
           (Inr getResponse, v4) \<and>
         check_decrypt P dec key plain getResponse = Inr () \<and>
         d = real_of_int (hrtime_at orc (clock_reads v4) - hrtime_at orc (clock_reads v)) / 1000000 \<and>
         v' = v4\<lparr>clock_reads := Suc (clock_reads v4)\<rparr>)) \<and>
   (check_decrypt P (Some g) key plain r = Inr () \<longleftrightarrow>
      (\<exists>t env. get_prop r ''text'' = Inr t \<and> P (js_string t) = Inr env \<and>
         g env key = Inr plain)) \<and>
   check_decrypt P None key plain r = Inr () \<and>
   (strategy_works orc S P enc dec key plain \<and> (\<forall>j \<ge> length (requests w). connects orc j) \<longrightarrow>
      (\<exists>ts' w'.
         run_iterations orc S P enc dec key plain n [] w = (Inr ts', w') \<and>
         length ts' = n \<and>
         map rec_id (server_strings w') =
           map rec_id (server_strings w) @
             [length (server_strings w)..<length (server_strings w) + n] \<and>
         map (fst \<circ> snd) (requests w') =
           map (fst \<circ> snd) (requests w) @
             concat (map (\<lambda>i. [''/store'', ''/strings/'' @ decimal i])
                       [length (server_strings w)..<length (server_strings w) + n]) \<and>
         (0 < n \<longrightarrow>
            (\<exists>s. benchmark orc S P enc dec key plain (Some (int n)) w = (Inr s, w'))))) \<and>
   (length skey = 32 \<and> stream_correct L \<and> tag_16_bytes L \<and> utf8_roundtrip L plain \<and>
    (\<forall>j \<ge> length (requests w). connects orc j) \<longrightarrow>
      (carries orc S' P' (encryptAES L rnd) skey plain \<longrightarrow>
         (\<exists>ts' w'.
            run_iterations orc S' P' (Some (encryptAES L rnd)) (Some (decryptAES L)) skey plain
              3 [] w = (Inr ts', w') \<and>
            length ts' = 3 \<and>
            map rec_id (server_strings w') =
              map rec_id (server_strings w) @
                [length (server_strings w), length (server_strings w) + 1,
                 length (server_strings w) + 2])) \<and>
      (carries orc S' P' (encryptChaCha20 L rnd) skey plain \<longrightarrow>
         (\<exists>ts' w'.
            run_iterations orc S' P' (Some (encryptChaCha20 L rnd)) (Some (decryptChaCha20 L))
              skey plain 3 [] w = (Inr ts', w') \<and>
            length ts' = 3 \<and>
            map rec_id (server_strings w') =
              map rec_id (server_strings w) @
                [length (server_strings w), length (server_strings w) + 1,
                 length (server_strings w) + 2]))) \<and>
   benchmark orc S P enc dec key plain None w = benchmark orc S P enc dec key plain (Some 100) w"
proof -
  have p1: "run_iterations orc S P enc dec key plain n ts w = (Inr ts', w') \<longrightarrow>
      length ts' = length ts + n \<and>
      ts' = ts @ map (\<lambda>i. duration_at orc (clock_reads w + 2 * i)) [0..<n] \<and>
      (\<exists>pairs. length pairs = n \<and>
         requests w' = requests w @ concat (map round_trip_requests pairs)) \<and>
      (\<exists>ws. ws 0 = w \<and> ws n = w' \<and>
         (\<forall>i<n. iteration orc S P enc dec key plain (ws i) =
                   (Inr (ts' ! (length ts + i)), ws (Suc i))))"
  proof
    assume a: "run_iterations orc S P enc dec key plain n ts w = (Inr ts', w')"
    note r = run_iterations_Inr [OF a]
    have t: "ts' = ts @ map (\<lambda>i. duration_at orc (clock_reads w + 2 * i)) [0..<n]"
      using r by blast
    then have l: "length ts' = length ts + n" by simp
    have q: "\<exists>pairs. length pairs = n \<and>
         requests w' = requests w @ concat (map round_trip_requests pairs)"
      using r by blast
    note c = run_iterations_chain [OF a]
    show "length ts' = length ts + n \<and>
      ts' = ts @ map (\<lambda>i. duration_at orc (clock_reads w + 2 * i)) [0..<n] \<and>
      (\<exists>pairs. length pairs = n \<and>
         requests w' = requests w @ concat (map round_trip_requests pairs)) \<and>
      (\<exists>ws. ws 0 = w \<and> ws n = w' \<and>
         (\<forall>i<n. iteration orc S P enc dec key plain (ws i) =
                   (Inr (ts' ! (length ts + i)), ws (Suc i))))"
      using l t q c by (intro conjI)
  qed
  note p2 = iteration_iff [of orc S P enc dec key plain v d v']
  note p3 = check_decrypt_iff [of P g key plain r]
  note p4 = check_decrypt_None [of P key plain r]
  have p5: "strategy_works orc S P enc dec key plain \<and> (\<forall>j \<ge> length (requests w). connects orc j) \<longrightarrow>
      (\<exists>ts' w'.
         run_iterations orc S P enc dec key plain n [] w = (Inr ts', w') \<and>
         length ts' = n \<and>
         map rec_id (server_strings w') =
           map rec_id (server_strings w) @
             [length (server_strings w)..<length (server_strings w) + n] \<and>
         map (fst \<circ> snd) (requests w') =
           map (fst \<circ> snd) (requests w) @
             concat (map (\<lambda>i. [''/store'', ''/strings/'' @ decimal i])
                       [length (server_strings w)..<length (server_strings w) + n]) \<and>
         (0 < n \<longrightarrow>
            (\<exists>s. benchmark orc S P enc dec key plain (Some (int n)) w = (Inr s, w'))))"
  proof
    assume a: "strategy_works orc S P enc dec key plain \<and>
        (\<forall>j \<ge> length (requests w). connects orc j)"
    then have works: "strategy_works orc S P enc dec key plain"
      and conn: "\<forall>j \<ge> length (requests w). connects orc j"
      by blast+
    from run_iterations_works [OF works conn, of n "[]"] obtain ts1 w1 where
      run: "run_iterations orc S P enc dec key plain n [] w = (Inr ts1, w1)"
      and ids: "map rec_id (server_strings w1) =
           map rec_id (server_strings w) @
             [length (server_strings w)..<length (server_strings w) + n]"
      and paths: "map (fst \<circ> snd) (requests w1) =
           map (fst \<circ> snd) (requests w) @
             concat (map (\<lambda>i. [''/store'', ''/strings/'' @ decimal i])
                       [length (server_strings w)..<length (server_strings w) + n])"
      by blast
    have len: "length ts1 = n" using run_iterations_Inr [OF run] by simp
    have bm: "0 < n \<longrightarrow> (\<exists>s. benchmark orc S P enc dec key plain (Some (int n)) w = (Inr s, w1))"
      using benchmark_Inr [OF run] by blast
    show "\<exists>ts' w'.
         run_iterations orc S P enc dec key plain n [] w = (Inr ts', w') \<and>
         length ts' = n \<and>
         map rec_id (server_strings w') =
           map rec_id (server_strings w) @
             [length (server_strings w)..<length (server_strings w) + n] \<and>
         map (fst \<circ> snd) (requests w') =
           map (fst \<circ> snd) (requests w) @
             concat (map (\<lambda>i. [''/store'', ''/strings/'' @ decimal i])
                       [length (server_strings w)..<length (server_strings w) + n]) \<and>
         (0 < n \<longrightarrow>
            (\<exists>s. benchmark orc S P enc dec key plain (Some (int n)) w = (Inr s, w')))"
      using run len ids paths bm by blast
  qed
  have p6: "length skey = 32 \<and> stream_correct L \<and> tag_16_bytes L \<and> utf8_roundtrip L plain \<and>
    (\<forall>j \<ge> length (requests w). connects orc j) \<longrightarrow>
      (carries orc S' P' (encryptAES L rnd) skey plain \<longrightarrow>
         (\<exists>ts' w'.
            run_iterations orc S' P' (Some (encryptAES L rnd)) (Some (decryptAES L)) skey plain
              3 [] w = (Inr ts', w') \<and>
            length ts' = 3 \<and>
            map rec_id (server_strings w') =
              map rec_id (server_strings w) @
                [length (server_strings w), length (server_strings w) + 1,
                 length (server_strings w) + 2])) \<and>
      (carries orc S' P' (encryptChaCha20 L rnd) skey plain \<longrightarrow>
         (\<exists>ts' w'.
            run_iterations orc S' P' (Some (encryptChaCha20 L rnd)) (Some (decryptChaCha20 L))
              skey plain 3 [] w = (Inr ts', w') \<and>
            length ts' = 3 \<and>
            map rec_id (server_strings w') =
              map rec_id (server_strings w) @
                [length (server_strings w), length (server_strings w) + 1,
                 length (server_strings w) + 2]))"
  proof (intro impI conjI)
    assume a: "length skey = 32 \<and> stream_correct L \<and> tag_16_bytes L \<and> utf8_roundtrip L plain \<and>
      (\<forall>j \<ge> length (requests w). connects orc j)"
    then have conn: "\<forall>j \<ge> length (requests w). connects orc j" by blast
    {
      assume c: "carries orc S' P' (encryptAES L rnd) skey plain"
      have "strategy_works orc S' P' (Some (encryptAES L rnd)) (Some (decryptAES L)) skey plain"
        unfolding encryptAES_def decryptAES_def
        using a c [unfolded encryptAES_def]
        by (intro symmetric_strategy_works) (simp_all add: valid_iv_length_def)
      from three_iterations [OF this conn]
      show "\<exists>ts' w'.
            run_iterations orc S' P' (Some (encryptAES L rnd)) (Some (decryptAES L)) skey plain
              3 [] w = (Inr ts', w') \<and>
            length ts' = 3 \<and>
            map rec_id (server_strings w') =
              map rec_id (server_strings w) @
                [length (server_strings w), length (server_strings w) + 1,
                 length (server_strings w) + 2]" .
    }
    {
      assume c: "carries orc S' P' (encryptChaCha20 L rnd) skey plain"
      have "strategy_works orc S' P' (Some (encryptChaCha20 L rnd)) (Some (decryptChaCha20 L))
          skey plain"
        unfolding encryptChaCha20_def decryptChaCha20_def
        using a c [unfolded encryptChaCha20_def]
        by (intro symmetric_strategy_works) (simp_all add: valid_iv_length_def)
      from three_iterations [OF this conn]
      show "\<exists>ts' w'.
            run_iterations orc S' P' (Some (encryptChaCha20 L rnd)) (Some (decryptChaCha20 L))
              skey plain 3 [] w = (Inr ts', w') \<and>
            length ts' = 3 \<and>
            map rec_id (server_strings w') =
              map rec_id (server_strings w) @
                [length (server_strings w), length (server_strings w) + 1,
                 length (server_strings w) + 2]" .
    }
  qed
  have p7: "benchmark orc S P enc dec key plain None w =
      benchmark orc S P enc dec key plain (Some 100) w"
    by (rule benchmark_default)
  show ?thesis using p1 p2 p3 p4 p5 p6 p7 by (intro conjI)
qed

theorem benchmark_iterations_witness:
  "\<exists>ts' w'.
     run_iterations toy_env toy_stringify toy_parse
       (Some (encryptAES toy_crypto toy_random)) (Some (decryptAES toy_crypto)) toy_key ''hello''
       3 [] started_world = (Inr ts', w') \<and>
     ts' = [1, 5, 9] \<and>
     map rec_id (server_strings w') = [0, 1, 2] \<and>
     map (fst \<circ> snd) (requests w') =
       [''/strings'', ''/store'', ''/strings/0'', ''/store'', ''/strings/1'', ''/store'',
        ''/strings/2''] \<and>
     (\<exists>w1 w2.
        iteration toy_env toy_stringify toy_parse
          (Some (encryptAES toy_crypto toy_random)) (Some (decryptAES toy_crypto)) toy_key ''hello''
          started_world = (Inr 1, w1) \<and>
        iteration toy_env toy_stringify toy_parse
          (Some (encryptAES toy_crypto toy_random)) (Some (decryptAES toy_crypto)) toy_key ''hello''
          w1 = (Inr 5, w2) \<and>
        iteration toy_env toy_stringify toy_parse
          (Some (encryptAES toy_crypto toy_random)) (Some (decryptAES toy_crypto)) toy_key ''hello''
          w2 = (Inr 9, w')) \<and>
     (\<exists>s. benchmark toy_env toy_stringify toy_parse
            (Some (encryptAES toy_crypto toy_random)) (Some (decryptAES toy_crypto)) toy_key
            ''hello'' (Some 3) started_world = (Inr s, w'))"
proof -
  have conn: "\<forall>j \<ge> length (requests started_world). connects toy_env j"
    by (simp add: started_world_def toy_env_def)
  have works: "strategy_works toy_env toy_stringify toy_parse
     (Some (encryptAES toy_crypto toy_random)) (Some (decryptAES toy_crypto)) toy_key ''hello''"
    by (rule toy_strategy_works) simp
  note t = benchmark_iterations [where orc = toy_env and S = toy_stringify and P = toy_parse
      and enc = "Some (encryptAES toy_crypto toy_random)" and dec = "Some (decryptAES toy_crypto)"
      and key = toy_key and plain = "''hello''" and n = 3 and w = started_world,
      THEN conjunct2, THEN conjunct2, THEN conjunct2, THEN conjunct2, THEN conjunct1,
      rule_format, OF conjI [OF works conn]]
  have d: "map decimal [0, 1, 2] = [''0'', ''1'', ''2'']" by code_simp
  have u: "[0..<3] = [0, 1, 2 :: nat]" by code_simp
  from t obtain ts' w' where
    run: "run_iterations toy_env toy_stringify toy_parse
       (Some (encryptAES toy_crypto toy_random)) (Some (decryptAES toy_crypto)) toy_key ''hello''
       3 [] started_world = (Inr ts', w')"
    and ids: "map rec_id (server_strings w') =
           map rec_id (server_strings started_world) @
             [length (server_strings started_world)..<length (server_strings started_world) + 3]"
    and paths: "map (fst \<circ> snd) (requests w') =
           map (fst \<circ> snd) (requests started_world) @
             concat (map (\<lambda>i. [''/store'', ''/strings/'' @ decimal i])
                       [length (server_strings started_world)..<length (server_strings started_world) + 3])"
    and bm: "0 < (3::nat) \<longrightarrow> (\<exists>s. benchmark toy_env toy_stringify toy_parse
            (Some (encryptAES toy_crypto toy_random)) (Some (decryptAES toy_crypto)) toy_key
            ''hello'' (Some (int 3)) started_world = (Inr s, w'))"
    by (elim exE conjE) (rule that; assumption)
  note c = benchmark_iterations [where orc = toy_env and S = toy_stringify and P = toy_parse
      and enc = "Some (encryptAES toy_crypto toy_random)" and dec = "Some (decryptAES toy_crypto)"
      and key = toy_key and plain = "''hello''" and n = 3 and w = started_world and ts = "[]"
      and ts' = ts' and w' = w', THEN conjunct1, rule_format, OF run]
  have ts0: "ts' = [] @ map (\<lambda>i. duration_at toy_env (clock_reads started_world + 2 * i)) [0..<3]"
    using c by (elim conjE)
  have ts: "ts' = [1, 5, 9]"
    unfolding ts0 u by (simp add: duration_at_def toy_env_def started_world_def)
  from c obtain ws where ws0: "ws 0 = started_world" and ws3: "ws 3 = w'"
    and step: "\<forall>i<3. iteration toy_env toy_stringify toy_parse
          (Some (encryptAES toy_crypto toy_random)) (Some (decryptAES toy_crypto)) toy_key ''hello''
          (ws i) = (Inr (ts' ! (length ([] :: real list) + i)), ws (Suc i))"
    by (elim exE conjE) (rule that; assumption)
  have ws3': "ws (Suc (Suc (Suc 0))) = w'" using ws3 by (simp add: numeral_3_eq_3)
  have s0: "iteration toy_env toy_stringify toy_parse
          (Some (encryptAES toy_crypto toy_random)) (Some (decryptAES toy_crypto)) toy_key ''hello''
          started_world = (Inr 1, ws (Suc 0))"
    using step [rule_format, of 0] ws0 ts by simp
  have s1: "iteration toy_env toy_stringify toy_parse
          (Some (encryptAES toy_crypto toy_random)) (Some (decryptAES toy_crypto)) toy_key ''hello''
          (ws (Suc 0)) = (Inr 5, ws (Suc (Suc 0)))"
    using step [rule_format, of "Suc 0"] ts by simp
  have s2: "iteration toy_env toy_stringify toy_parse
          (Some (encryptAES toy_crypto toy_random)) (Some (decryptAES toy_crypto)) toy_key ''hello''
          (ws (Suc (Suc 0))) = (Inr 9, w')"
    using step [rule_format, of "Suc (Suc 0)"] ts ws3' by simp
  have its: "\<exists>w1 w2.
        iteration toy_env toy_stringify toy_parse
          (Some (encryptAES toy_crypto toy_random)) (Some (decryptAES toy_crypto)) toy_key ''hello''
          started_world = (Inr 1, w1) \<and>
        iteration toy_env toy_stringify toy_parse
          (Some (encryptAES toy_crypto toy_random)) (Some (decryptAES toy_crypto)) toy_key ''hello''
          w1 = (Inr 5, w2) \<and>
        iteration toy_env toy_stringify toy_parse
          (Some (encryptAES toy_crypto toy_random)) (Some (decryptAES toy_crypto)) toy_key ''hello''
          w2 = (Inr 9, w')"
    using s0 s1 s2 by (intro exI conjI)
  have ids': "map rec_id (server_strings w') = [0, 1, 2]"
    using ids by (simp add: started_world_def u)
  have paths': "map (fst \<circ> snd) (requests w') =
       [''/strings'', ''/store'', ''/strings/0'', ''/store'', ''/strings/1'', ''/store'',
        ''/strings/2'']"
    using paths d by (simp add: started_world_def u)
  have bm': "\<exists>s. benchmark toy_env toy_stringify toy_parse
            (Some (encryptAES toy_crypto toy_random)) (Some (decryptAES toy_crypto)) toy_key
            ''hello'' (Some 3) started_world = (Inr s, w')"
    using bm by simp
  show ?thesis
    by (rule exI [of _ ts'], rule exI [of _ w']) (use run ts ids' paths' its bm' in \<open>intro conjI\<close>)
qed

end
